theory Spec2Isabelle
  imports Main "HOL-Library.Sublist"
begin

section \<open>Constants of the orchestrator\<close>

text \<open>
  The \<^verbatim>\<open>const\<close> block of the orchestrator (package \<^verbatim>\<open>main\<close>): the module name
  of the generated server, the exit codes and the log verbosity levels.
\<close>

definition GENERATED_MODULE_NAME :: string where
  "GENERATED_MODULE_NAME = ''gripmock/generated''"

definition EXITCODE_OTHER_ERROR :: int where "EXITCODE_OTHER_ERROR = 1"
definition EXITCODE_BUILD_ERROR :: int where "EXITCODE_BUILD_ERROR = 2"
definition EXITCODE_RUNTIME_ERROR :: int where "EXITCODE_RUNTIME_ERROR = 3"
definition EXITCODE_ARGUMENTS_ERROR :: int where "EXITCODE_ARGUMENTS_ERROR = 4"

definition LOG_ERROR :: nat where "LOG_ERROR = 0"
definition LOG_INFO :: nat where "LOG_INFO = 1"
definition LOG_VERBOSE :: nat where "LOG_VERBOSE = 2"
definition LOG_DEBUG :: nat where "LOG_DEBUG = 3"
definition LOG_TRACE :: nat where "LOG_TRACE = 4"

text \<open>A log record: the verbosity level it is written at and its message.\<close>

type_synonym log_entry = "nat \<times> string"

definition dquote :: string where
  "dquote = [CHR 0x22]"

definition LF :: char where "LF = CHR 0x0A"
definition CR :: char where "CR = CHR 0x0D"
definition TAB :: char where "TAB = CHR 0x09"

section \<open>The Go path library on slash-separated paths\<close>

text \<open>
  The orchestrator calls \<^verbatim>\<open>path\<close> and \<^verbatim>\<open>path/filepath\<close> of the Go standard library.
  On a Unix system both work on \<^verbatim>\<open>/\<close>-separated byte strings and agree with one another.
  The functions below follow the library's documented behaviour; a path is a \<^typ>\<open>string\<close>.
\<close>

text \<open>\<^verbatim>\<open>strings.Split(s, sep)\<close> for a one-byte separator: never the empty list.\<close>

fun split_on :: "char \<Rightarrow> string \<Rightarrow> string list" where
  "split_on d [] = [[]]"
| "split_on d (c # cs) =
     (if c = d then [] # split_on d cs
      else case split_on d cs of
             [] \<Rightarrow> [[c]]
           | x # xs \<Rightarrow> (c # x) # xs)"

text \<open>\<^verbatim>\<open>strings.Join(elems, "/")\<close>.\<close>

fun join_sep :: "string list \<Rightarrow> string" where
  "join_sep [] = []"
| "join_sep [x] = x"
| "join_sep (x # y # ys) = x @ CHR ''/'' # join_sep (y # ys)"

text \<open>\<^verbatim>\<open>filepath.IsAbs\<close> on Unix: the path starts with a slash.\<close>

definition filepath_IsAbs :: "string \<Rightarrow> bool" where
  "filepath_IsAbs p = (case p of [] \<Rightarrow> False | c # _ \<Rightarrow> c = CHR ''/'')"

text \<open>
  \<^verbatim>\<open>Clean\<close>: the shortest path equivalent to the argument by lexical processing alone.
  The library walks the path element by element and keeps the output elements it may
  still back out of; \<open>clean_elem\<close> is one step of that walk on the stack of output
  elements (last element first): empty and \<^verbatim>\<open>.\<close> elements are dropped, a \<^verbatim>\<open>..\<close>
  removes the element before it, is dropped at the root of a rooted path, and is kept
  at the start of a relative path.
\<close>

definition clean_elem :: "bool \<Rightarrow> string list \<Rightarrow> string \<Rightarrow> string list" where
  "clean_elem rooted out e =
     (if e = [] \<or> e = ''.'' then out
      else if e = ''..'' then
        (case out of
           [] \<Rightarrow> if rooted then [] else [''..'']
         | t # ts \<Rightarrow> if t = ''..'' then ''..'' # out else ts)
      else e # out)"

definition clean_elems :: "bool \<Rightarrow> string list \<Rightarrow> string list" where
  "clean_elems rooted es = rev (foldl (clean_elem rooted) [] es)"

definition filepath_Clean :: "string \<Rightarrow> string" where
  "filepath_Clean p =
     (if p = [] then ''.''
      else let rooted = filepath_IsAbs p;
               s = (if rooted then ''/'' else []) @
                   join_sep (clean_elems rooted (split_on (CHR ''/'') p))
           in if s = [] then ''.'' else s)"

text \<open>
  \<^verbatim>\<open>path.Join\<close>: empty elements before the first non-empty one are ignored, the rest
  is joined with slashes and cleaned; the result is empty when every element is.
\<close>

definition path_Join :: "string list \<Rightarrow> string" where
  "path_Join elem =
     (case dropWhile (\<lambda>e. e = []) elem of
        [] \<Rightarrow> []
      | e # es \<Rightarrow> filepath_Clean (join_sep (e # es)))"

text \<open>\<^verbatim>\<open>path.Split\<close>'s directory part: everything up to and including the last slash.\<close>

definition split_dir :: "string \<Rightarrow> string" where
  "split_dir p = rev (dropWhile (\<lambda>c. c \<noteq> CHR ''/'') (rev p))"

definition path_Dir :: "string \<Rightarrow> string" where
  "path_Dir p = filepath_Clean (split_dir p)"

text \<open>
  \<^verbatim>\<open>path.Base\<close>: the last element; trailing slashes are removed first, the empty path
  gives \<^verbatim>\<open>.\<close> and a path of slashes only gives \<^verbatim>\<open>/\<close>.
\<close>

definition path_Base :: "string \<Rightarrow> string" where
  "path_Base p =
     (if p = [] then ''.''
      else let q = rev (dropWhile (\<lambda>c. c = CHR ''/'') (rev p));
               b = rev (takeWhile (\<lambda>c. c \<noteq> CHR ''/'') (rev q))
           in if b = [] then ''/'' else b)"

text \<open>
  \<^verbatim>\<open>filepath.Abs\<close>: an absolute path is cleaned; a relative one is joined to the working
  directory, and the call fails when \<^verbatim>\<open>os.Getwd\<close> does (\<open>wd = Inl err\<close>).
\<close>

definition filepath_Abs :: "string + string \<Rightarrow> string \<Rightarrow> string + string" where
  "filepath_Abs wd p =
     (if filepath_IsAbs p then Inr (filepath_Clean p)
      else case wd of Inl err \<Rightarrow> Inl err | Inr d \<Rightarrow> Inr (path_Join [d, p]))"

text \<open>
  \<^verbatim>\<open>filepath.Rel(basepath, targpath)\<close>: both paths are cleaned, their common leading
  elements are skipped, and the result climbs out of what is left of the base with
  one \<^verbatim>\<open>..\<close> per element before it descends into what is left of the target.
  \<open>path_elems\<close> lists the elements the library's scan sees (a rooted path starts with
  an empty element); the resolver below only ever passes two rooted paths.
\<close>

fun strip_common :: "string list \<Rightarrow> string list \<Rightarrow> string list \<times> string list" where
  "strip_common (b # bs) (t # ts) =
     (if b = t then strip_common bs ts else (b # bs, t # ts))"
| "strip_common bs ts = (bs, ts)"

definition path_elems :: "string \<Rightarrow> string list" where
  "path_elems p = (if p = [] then [] else if p = ''/'' then [[]] else split_on (CHR ''/'') p)"

definition filepath_Rel :: "string \<Rightarrow> string \<Rightarrow> string + string" where
  "filepath_Rel basepath targpath =
     (let base = filepath_Clean basepath; targ = filepath_Clean targpath in
      if targ = base then Inr ''.''
      else let base' = (if base = ''.'' then [] else base) in
        if filepath_IsAbs base' \<noteq> filepath_IsAbs targ
        then Inl (''Rel: can't make '' @ targpath @ '' relative to '' @ basepath)
        else case strip_common (path_elems base') (path_elems targ) of (rb, rt) \<Rightarrow>
          if rb \<noteq> [] \<and> rt \<noteq> [] \<and> hd rb = ''..''
          then Inl (''Rel: can't make '' @ targpath @ '' relative to '' @ basepath)
          else if rb \<noteq> [] then Inr (join_sep (replicate (length rb) ''..'' @ rt))
          else Inr (join_sep rt))"

section \<open>The path resolver\<close>

text \<open>
  What \<^verbatim>\<open>os.Stat\<close> reports for a path: a file information for something that is not a
  directory, one for a directory, an error that \<^verbatim>\<open>os.IsNotExist\<close> recognises, or any
  other error (with its text).
\<close>

datatype stat_result = StatFile | StatDir | StatNotExist | StatError string

definition stat_ok :: "stat_result \<Rightarrow> bool" where
  "stat_ok r = (r = StatFile \<or> r = StatDir)"

definition stat_err_text :: "string \<Rightarrow> stat_result \<Rightarrow> string" where
  "stat_err_text p r =
     (case r of
        StatNotExist \<Rightarrow> ''stat '' @ p @ '': no such file or directory''
      | StatError e \<Rightarrow> ''stat '' @ p @ '': '' @ e
      | _ \<Rightarrow> [])"

text \<open>
  The loop of \<^verbatim>\<open>findProtoInImports\<close> over the import paths. \<open>stat\<close> is the file system as
  \<^verbatim>\<open>os.Stat\<close> shows it and \<open>wd\<close> what \<^verbatim>\<open>os.Getwd\<close> returns. The loop leaves with
  \<^verbatim>\<open>matchedImp\<close> and \<^verbatim>\<open>matchedRel\<close>, both empty when no entry matched, or returns the
  error of \<^verbatim>\<open>filepath.Abs\<close>. \<open>protoPath\<close> is already cleaned.
\<close>

fun search_imports ::
  "(string \<Rightarrow> stat_result) \<Rightarrow> string + string \<Rightarrow> string \<Rightarrow> string list \<Rightarrow>
     string + (string \<times> string)" where
  "search_imports stat wd protoPath [] = Inr ([], [])"
| "search_imports stat wd protoPath (imp0 # imps) =
     (let imp = filepath_Clean imp0 in
      if filepath_IsAbs protoPath then
        (case filepath_Abs wd imp of
           Inl err \<Rightarrow> Inl (''making path '' @ imp @ '' absolute: '' @ err)
         | Inr absImp \<Rightarrow>
             (case filepath_Rel absImp protoPath of
                Inl err \<Rightarrow> search_imports stat wd protoPath imps
              | Inr relPath \<Rightarrow>
                  if relPath \<noteq> [] \<and> \<not> prefix ''../'' relPath then
                    (let rel = path_Dir relPath;
                         derivedPath = path_Join [imp, rel, path_Base protoPath]
                     in if \<not> stat_ok (stat derivedPath)
                        then search_imports stat wd protoPath imps
                        else Inr (imp, rel))
                  else search_imports stat wd protoPath imps))
      else
        (let importProtoPath = path_Join [imp, protoPath] in
         if stat importProtoPath \<noteq> StatNotExist
         then Inr (imp, path_Dir protoPath)
         else search_imports stat wd protoPath imps))"

text \<open>
  The fallback after the loop, taken when both \<^verbatim>\<open>matchedImp\<close> and \<^verbatim>\<open>matchedRel\<close> are
  empty: a proto path that exists becomes its own implicit import path, with a
  warning at \<^verbatim>\<open>LOG_INFO\<close>; otherwise the resolver fails. The result carries the log
  records written.
\<close>

definition WARNING_IMPLICIT_IMPORT :: string where
  "WARNING_IMPLICIT_IMPORT =
     ''WARNING: adding proto file's containing dir as implicit import path. '' @
     ''You should specify an appropriate path on the -imports list instead.''"

definition NOT_FOUND_LOG :: log_entry where
  "NOT_FOUND_LOG =
     (LOG_INFO, ''Protocol file not found on any import path, see README for details'')"

definition not_found_message :: "string \<Rightarrow> string" where
  "not_found_message p = ''could not find proto '' @ dquote @ p @ dquote @ '' on import path''"

definition implicit_import ::
  "(string \<Rightarrow> stat_result) \<Rightarrow> string + string \<Rightarrow> string \<Rightarrow>
     log_entry list \<times> (string + (string \<times> string))" where
  "implicit_import stat wd protoPath =
     (if stat protoPath \<noteq> StatNotExist then
        ((if \<not> filepath_IsAbs protoPath
          then [(LOG_VERBOSE,
                 ''Protocol file '' @ dquote @ protoPath @ dquote @
                 '' not found on any import path, but WAS found relative to the '' @
                 ''gripmock working directory '' @ dquote @
                 (case wd of Inl _ \<Rightarrow> [] | Inr d \<Rightarrow> d) @ dquote @ ''.'')]
          else []) @
         [(LOG_INFO, WARNING_IMPLICIT_IMPORT)],
         Inr (path_Dir protoPath, ''.''))
      else
        ([NOT_FOUND_LOG], Inl (not_found_message protoPath)))"

text \<open>The final check that the proto file is on the matched import path.\<close>

definition check_derived ::
  "(string \<Rightarrow> stat_result) \<Rightarrow> string \<Rightarrow> string \<Rightarrow> string \<Rightarrow> string + (string \<times> string)" where
  "check_derived stat protoPath matchedImp matchedRel =
     (let derivedPath = path_Join [matchedImp, matchedRel, path_Base protoPath] in
      case stat derivedPath of
        StatFile \<Rightarrow> Inr (matchedImp, matchedRel)
      | StatDir \<Rightarrow> Inl (''path '' @ dquote @ derivedPath @ dquote @ '' is a directory'')
      | r \<Rightarrow> Inl (''cannot stat proto file at path '' @ dquote @ derivedPath @ dquote @
                   '': '' @ stat_err_text derivedPath r))"

text \<open>
  \<^verbatim>\<open>findProtoInImports(importPaths, protoPath)\<close>: the import path the proto file was
  matched on and the directory of the proto file relative to it, or an error; with
  the log records of level \<^verbatim>\<open>LOG_INFO\<close> and \<^verbatim>\<open>LOG_VERBOSE\<close> it writes (the
  \<^verbatim>\<open>LOG_TRACE\<close> diagnostics are left out).
\<close>

definition findProtoInImports ::
  "(string \<Rightarrow> stat_result) \<Rightarrow> string + string \<Rightarrow> string list \<Rightarrow> string \<Rightarrow>
     log_entry list \<times> (string + (string \<times> string))" where
  "findProtoInImports stat wd importPaths protoPath0 =
     (if protoPath0 = [] then ([], Inl ''empty input'')
      else
        let protoPath = filepath_Clean protoPath0 in
        case search_imports stat wd protoPath importPaths of
          Inl err \<Rightarrow> ([], Inl err)
        | Inr (matchedImp, matchedRel) \<Rightarrow>
            if matchedRel = [] \<and> matchedImp = [] then
              (case implicit_import stat wd protoPath of
                 (logs, Inl err) \<Rightarrow> (logs, Inl err)
               | (logs, Inr (imp, rel)) \<Rightarrow> (logs, check_derived stat protoPath imp rel))
            else ([], check_derived stat protoPath matchedImp matchedRel))"

section \<open>The namespace rewriter\<close>

text \<open>
  The two regular expressions of \<^verbatim>\<open>fixGoPackageProtoStream\<close>, both anchored at the
  start of the line only:
  \<^verbatim>\<open>^option[ \t]+go_package[ \t]+=\<close> and \<^verbatim>\<open>^syntax[ \t]\<close>.
  (\<^verbatim>\<open>regexp.MatchString\<close> returns an error only for a pattern that does not compile,
  so these two calls never do.)
\<close>

definition is_blank :: "char \<Rightarrow> bool" where
  "is_blank c = (c = CHR '' '' \<or> c = TAB)"

definition match_go_package :: "string \<Rightarrow> bool" where
  "match_go_package l =
     (prefix ''option'' l \<and>
      (let r1 = drop 6 l; r2 = dropWhile is_blank r1 in
       r2 \<noteq> r1 \<and> prefix ''go_package'' r2 \<and>
       (let r3 = drop 10 r2; r4 = dropWhile is_blank r3 in
        r4 \<noteq> r3 \<and> prefix ''='' r4)))"

definition match_syntax :: "string \<Rightarrow> bool" where
  "match_syntax l =
     (prefix ''syntax'' l \<and> (case drop 6 l of [] \<Rightarrow> False | c # _ \<Rightarrow> is_blank c))"

text \<open>
  \<^verbatim>\<open>bufio.Scanner\<close> with \<^verbatim>\<open>bufio.ScanLines\<close> on an in-memory reader: the input is cut at
  every line feed, a last piece without line feed is a line when it is not empty, and
  one trailing carriage return is dropped from each line. The scanner's buffer holds
  \<^verbatim>\<open>bufio.MaxScanTokenSize\<close> bytes: at the first line that does not fit, scanning
  stops and \<^verbatim>\<open>Err()\<close> is \<^verbatim>\<open>bufio.ErrTooLong\<close>.
\<close>

definition MaxScanTokenSize :: nat where
  "MaxScanTokenSize = 64 * 1024"

definition ErrTooLong :: string where
  "ErrTooLong = ''bufio.Scanner: token too long''"

definition raw_lines :: "string \<Rightarrow> string list" where
  "raw_lines s = (let ps = split_on LF s in if last ps = [] then butlast ps else ps)"

definition dropCR :: "string \<Rightarrow> string" where
  "dropCR l = (if l \<noteq> [] \<and> last l = CR then butlast l else l)"

definition fits :: "string \<Rightarrow> bool" where
  "fits l = (length l < MaxScanTokenSize)"

definition ScanLines :: "string \<Rightarrow> string list" where
  "ScanLines s = map dropCR (raw_lines s)"

definition scanner_tokens :: "string \<Rightarrow> string list" where
  "scanner_tokens s = map dropCR (takeWhile fits (raw_lines s))"

definition scanner_Err :: "string \<Rightarrow> string option" where
  "scanner_Err s = (if list_all fits (raw_lines s) then None else Some ErrTooLong)"

text \<open>The line the rewriter adds after the syntax line, and what it writes for it.\<close>

definition go_package_line :: "string \<Rightarrow> string" where
  "go_package_line newPackage = ''option go_package = '' @ dquote @ newPackage @ dquote @ '';''"

definition ERR_MULTIPLE_SYNTAX :: string where
  "ERR_MULTIPLE_SYNTAX = ''Found more than one '' @ dquote @ ''syntax'' @ dquote @ '' statement''"

definition ERR_NO_SYNTAX :: string where
  "ERR_NO_SYNTAX =
     ''no '' @ dquote @ ''syntax'' @ dquote @ '' line found when scanning proto file''"

text \<open>
  The scan loop: its state is \<^verbatim>\<open>foundSyntaxLine\<close> and the bytes written so far; it
  returns early on a second syntax line.
\<close>

fun scan_loop :: "string \<Rightarrow> bool \<times> string \<Rightarrow> string list \<Rightarrow> string + (bool \<times> string)" where
  "scan_loop newPackage (found, out) [] = Inr (found, out)"
| "scan_loop newPackage (found, out) (l # ls) =
     (if match_go_package l then scan_loop newPackage (found, out) ls
      else if match_syntax l then
        (if found then Inl ERR_MULTIPLE_SYNTAX
         else scan_loop newPackage
                (True, out @ (l @ [LF] @ go_package_line newPackage @ [LF]) @ [LF]) ls)
      else scan_loop newPackage (found, out @ l @ [LF]) ls)"

text \<open>
  \<^verbatim>\<open>fixGoPackageProtoStream(in, newPackage, out)\<close> on the bytes \<open>inp\<close> of the reader:
  the error, or the bytes written to \<^verbatim>\<open>out\<close>. Reader and writer are in memory, so only
  the scanner's own error can come out of \<^verbatim>\<open>s.Err()\<close> and the flush does not fail.
\<close>

definition fixGoPackageProtoStream :: "string \<Rightarrow> string \<Rightarrow> string + string" where
  "fixGoPackageProtoStream inp newPackage =
     (if newPackage = [] then Inl ''empty package name''
      else case scan_loop newPackage (False, []) (scanner_tokens inp) of
             Inl err \<Rightarrow> Inl err
           | Inr (foundSyntaxLine, out) \<Rightarrow>
               (case scanner_Err inp of
                  Some err \<Rightarrow> Inl err
                | None \<Rightarrow> if \<not> foundSyntaxLine then Inl ERR_NO_SYNTAX else Inr out))"

section \<open>The file system and the process state\<close>

text \<open>
  The part of the operating system the orchestrator works on: the working directory
  of the process and the file system, a map from absolute cleaned paths to what is
  there (a file with its bytes, a directory, or something the system calls fail on
  with an error other than "does not exist"). Paths are resolved lexically: there are
  no symbolic links.
\<close>

datatype node = File string | Directory | Denied string

record world =
  cwd :: string
  fs :: "string \<Rightarrow> node option"

definition abs_key :: "world \<Rightarrow> string \<Rightarrow> string" where
  "abs_key w p = (if filepath_IsAbs p then filepath_Clean p else path_Join [cwd w, p])"

text \<open>
  The lookup of a path by the kernel. \<open>path_ancestors\<close> lists the directories on the
  way to an absolute path, from the root down, and the path itself last. Every one of
  them but the last must be there and be a directory: a missing one gives \<^verbatim>\<open>ENOENT\<close>,
  a regular file \<^verbatim>\<open>ENOTDIR\<close>. The empty path gives \<^verbatim>\<open>ENOENT\<close>. \<open>lookup_dir\<close> is the
  error of this walk, if any; only \<^verbatim>\<open>ENOENT\<close> is an error that \<^verbatim>\<open>os.IsNotExist\<close>
  recognises.
\<close>

definition path_ancestors :: "string \<Rightarrow> string list" where
  "path_ancestors key =
     (let names = filter (\<lambda>e. e \<noteq> []) (split_on (CHR ''/'') key)
      in map (\<lambda>k. ''/'' @ join_sep (take k names)) [0..<Suc (length names)])"

fun walk_dirs :: "(string \<Rightarrow> node option) \<Rightarrow> string list \<Rightarrow> stat_result option" where
  "walk_dirs f [] = None"
| "walk_dirs f (a # as) =
     (case f a of
        Some Directory \<Rightarrow> walk_dirs f as
      | None \<Rightarrow> Some StatNotExist
      | Some (File _) \<Rightarrow> Some (StatError ''not a directory'')
      | Some (Denied e) \<Rightarrow> Some (StatError e))"

definition lookup_dir :: "world \<Rightarrow> string \<Rightarrow> stat_result option" where
  "lookup_dir w p =
     (if p = [] then Some StatNotExist
      else walk_dirs (fs w) (butlast (path_ancestors (abs_key w p))))"

definition errno_text :: "stat_result \<Rightarrow> string" where
  "errno_text r =
     (case r of
        StatNotExist \<Rightarrow> ''no such file or directory''
      | StatError e \<Rightarrow> e
      | _ \<Rightarrow> [])"

definition os_Stat :: "world \<Rightarrow> string \<Rightarrow> stat_result" where
  "os_Stat w p =
     (case lookup_dir w p of
        Some r \<Rightarrow> r
      | None \<Rightarrow>
         (case fs w (abs_key w p) of
            None \<Rightarrow> StatNotExist
          | Some (File _) \<Rightarrow> StatFile
          | Some Directory \<Rightarrow> StatDir
          | Some (Denied e) \<Rightarrow> StatError e))"

definition os_Getwd :: "world \<Rightarrow> string + string" where
  "os_Getwd w =
     (if fs w (cwd w) = Some Directory then Inr (cwd w)
      else Inl ''getwd: no such file or directory'')"

definition os_Chdir :: "world \<Rightarrow> string \<Rightarrow> string + world" where
  "os_Chdir w dir =
     (case lookup_dir w dir of
        Some r \<Rightarrow> Inl (''chdir '' @ dir @ '': '' @ errno_text r)
      | None \<Rightarrow>
         (case fs w (abs_key w dir) of
            Some Directory \<Rightarrow> Inr (w\<lparr>cwd := abs_key w dir\<rparr>)
          | Some (File _) \<Rightarrow> Inl (''chdir '' @ dir @ '': not a directory'')
          | Some (Denied e) \<Rightarrow> Inl (''chdir '' @ dir @ '': '' @ e)
          | None \<Rightarrow> Inl (''chdir '' @ dir @ '': no such file or directory'')))"

definition os_Mkdir :: "world \<Rightarrow> string \<Rightarrow> string + world" where
  "os_Mkdir w p =
     (case lookup_dir w p of
        Some r \<Rightarrow> Inl (''mkdir '' @ p @ '': '' @ errno_text r)
      | None \<Rightarrow>
         if fs w (abs_key w p) \<noteq> None then Inl (''mkdir '' @ p @ '': file exists'')
         else Inr (w\<lparr>fs := (fs w)(abs_key w p \<mapsto> Directory)\<rparr>))"

text \<open>
  \<^verbatim>\<open>os.MkdirAll(path)\<close>: nothing to do when the path is a directory, an error when it
  is something else; otherwise the parent is made in the same way and then the path
  itself with \<^verbatim>\<open>os.Mkdir\<close>, whose error counts only if the path is still no directory.
  The parent is the path up to the separator before its last element,
  \<^verbatim>\<open>path[:j-1]\<close>, and there is none when that is empty. Every error names the path the
  failing call was given.
\<close>

definition mkdir_parent :: "string \<Rightarrow> string" where
  "mkdir_parent p =
     rev (tl (dropWhile (\<lambda>c. c \<noteq> CHR ''/'') (dropWhile (\<lambda>c. c = CHR ''/'') (rev p))))"

function os_MkdirAll :: "world \<Rightarrow> string \<Rightarrow> string + world" where
  "os_MkdirAll w p =
     (if os_Stat w p = StatDir then Inr w
      else if os_Stat w p = StatFile then Inl (''mkdir '' @ p @ '': not a directory'')
      else
        (case (if mkdir_parent p = [] then Inr w else os_MkdirAll w (mkdir_parent p)) of
           Inl err \<Rightarrow> Inl err
         | Inr w1 \<Rightarrow>
            (case os_Mkdir w1 p of
               Inr w2 \<Rightarrow> Inr w2
             | Inl err \<Rightarrow> if os_Stat w1 p = StatDir then Inr w1 else Inl err)))"
  by pat_completeness auto

termination os_MkdirAll
proof (relation "measure (\<lambda>(w, p). length p)")
  show "wf (measure (\<lambda>(w :: world, p :: string). length p))" by simp
next
  fix w :: world and p :: string
  assume a: "mkdir_parent p \<noteq> []"
  define r where
    "r = dropWhile (\<lambda>c. c \<noteq> CHR ''/'') (dropWhile (\<lambda>c. c = CHR ''/'') (rev p))"
  have mp: "mkdir_parent p = rev (tl r)" by (simp add: mkdir_parent_def r_def)
  with a have "tl r \<noteq> []" by simp
  then have ne: "r \<noteq> []" by (cases r) simp_all
  have "length r \<le> length (dropWhile (\<lambda>c. c = CHR ''/'') (rev p))"
    unfolding r_def by (rule length_dropWhile_le)
  also have "\<dots> \<le> length (rev p)" by (rule length_dropWhile_le)
  finally have "length r \<le> length p" by simp
  with ne have "length (mkdir_parent p) < length p" unfolding mp by (cases r) simp_all
  then show "((w, mkdir_parent p), (w, p)) \<in> measure (\<lambda>(w, p). length p)" by simp
qed

declare os_MkdirAll.simps [simp del]

text \<open>
  \<^verbatim>\<open>os.Open\<close> gives a handle on what is at the path (a directory can be opened; reading
  it fails). \<^verbatim>\<open>os.OpenFile\<close> with \<^verbatim>\<open>O_RDWR|O_CREATE|O_TRUNC\<close> creates the file or
  empties the one that is there. A handle is the name the file was opened with and
  the absolute path it stands for; an error of a read names the former.
\<close>

type_synonym handle = "string \<times> string"

definition os_Open :: "world \<Rightarrow> string \<Rightarrow> string + handle" where
  "os_Open w p =
     (case lookup_dir w p of
        Some r \<Rightarrow> Inl (''open '' @ p @ '': '' @ errno_text r)
      | None \<Rightarrow>
         (case fs w (abs_key w p) of
            None \<Rightarrow> Inl (''open '' @ p @ '': no such file or directory'')
          | Some (Denied e) \<Rightarrow> Inl (''open '' @ p @ '': '' @ e)
          | Some _ \<Rightarrow> Inr (p, abs_key w p)))"

definition os_OpenFile_create_trunc :: "world \<Rightarrow> string \<Rightarrow> string + (handle \<times> world)" where
  "os_OpenFile_create_trunc w p =
     (case lookup_dir w p of
        Some r \<Rightarrow> Inl (''open '' @ p @ '': '' @ errno_text r)
      | None \<Rightarrow>
         (case fs w (abs_key w p) of
            Some Directory \<Rightarrow> Inl (''open '' @ p @ '': is a directory'')
          | Some (Denied e) \<Rightarrow> Inl (''open '' @ p @ '': '' @ e)
          | _ \<Rightarrow> Inr ((p, abs_key w p), w\<lparr>fs := (fs w)(abs_key w p \<mapsto> File [])\<rparr>)))"

definition read_handle :: "world \<Rightarrow> handle \<Rightarrow> string + string" where
  "read_handle w h =
     (case fs w (snd h) of
        Some (File bytes) \<Rightarrow> Inr bytes
      | Some Directory \<Rightarrow> Inl (''read '' @ fst h @ '': is a directory'')
      | _ \<Rightarrow> Inl (''read '' @ fst h @ '': bad file descriptor''))"

definition write_handle :: "world \<Rightarrow> handle \<Rightarrow> string \<Rightarrow> world" where
  "write_handle w h bytes = w\<lparr>fs := (fs w)(snd h \<mapsto> File bytes)\<rparr>"

section \<open>Rewriting the proto files into the output directory\<close>

text \<open>
  \<^verbatim>\<open>fixGoPackage(protoPath, newPackage, outPath)\<close>: the input is opened, then the output
  is created or emptied, then the stream is rewritten from the one into the other.
  The world is returned when the call succeeds.
\<close>

definition fixGoPackage :: "world \<Rightarrow> string \<Rightarrow> string \<Rightarrow> string \<Rightarrow> string + world" where
  "fixGoPackage w protoPath newPackage outPath =
     (case os_Open w protoPath of
        Inl err \<Rightarrow> Inl (''opening input proto file for reading: '' @ err)
      | Inr inh \<Rightarrow>
         (case os_OpenFile_create_trunc w outPath of
            Inl err \<Rightarrow> Inl (''opening output proto file for writing: '' @ err)
          | Inr (outh, w1) \<Rightarrow>
             (case (if newPackage = [] then fixGoPackageProtoStream [] newPackage
                    else case read_handle w1 inh of
                           Inl err \<Rightarrow> Inl err
                         | Inr bytes \<Rightarrow> fixGoPackageProtoStream bytes newPackage) of
                Inl err \<Rightarrow>
                  Inl (''failed to munge proto file '' @ dquote @ protoPath @ dquote @
                       '': '' @ err)
              | Inr out \<Rightarrow> Inr (write_handle w1 outh out))))"

record protocParam =
  protoPath :: "string list"
  adminPort :: string
  grpcAddress :: string
  grpcPort :: string
  output_p :: string
  imports_p :: "string list"
  templateDir :: string

text \<open>
  The body of the loop of \<^verbatim>\<open>fixGoPackages\<close> for one proto file (the fields \<^verbatim>\<open>output\<close>
  and \<^verbatim>\<open>imports\<close> of the parameters are \<open>output_p\<close> and \<open>imports_p\<close> here): the path of the rewritten copy and the
  world after it is written. The resolver's log records go to standard output, which
  the world does not hold.
\<close>

definition fixGoPackages_step ::
  "world \<Rightarrow> string list \<Rightarrow> string \<Rightarrow> string \<Rightarrow> string + (string \<times> world)" where
  "fixGoPackages_step w imps out proto =
     (case snd (findProtoInImports (os_Stat w) (os_Getwd w) imps proto) of
        Inl err \<Rightarrow> Inl err
      | Inr (importDir, newPackageSuffix) \<Rightarrow>
          let protoPath = path_Join [importDir, newPackageSuffix, path_Base proto];
              outProtoDir = path_Join [out, newPackageSuffix];
              outProto = path_Join [outProtoDir, path_Base proto];
              newPackage = path_Join [GENERATED_MODULE_NAME, newPackageSuffix]
          in (case os_MkdirAll w outProtoDir of
                Inl err \<Rightarrow> Inl err
              | Inr w1 \<Rightarrow>
                 (case fixGoPackage w1 protoPath newPackage outProto of
                    Inl err \<Rightarrow> Inl err
                  | Inr w2 \<Rightarrow> Inr (outProto, w2))))"

fun fixGoPackages_loop ::
  "world \<Rightarrow> string list \<Rightarrow> string \<Rightarrow> string list \<Rightarrow> string + (string list \<times> world)" where
  "fixGoPackages_loop w imps out [] = Inr ([], w)"
| "fixGoPackages_loop w imps out (proto # protos) =
     (case fixGoPackages_step w imps out proto of
        Inl err \<Rightarrow> Inl err
      | Inr (outProto, w1) \<Rightarrow>
         (case fixGoPackages_loop w1 imps out protos of
            Inl err \<Rightarrow> Inl err
          | Inr (outProtos, w2) \<Rightarrow> Inr (outProto # outProtos, w2)))"

definition fixGoPackages :: "world \<Rightarrow> protocParam \<Rightarrow> string + (protocParam \<times> world)" where
  "fixGoPackages w param =
     (case fixGoPackages_loop w (imports_p param) (output_p param) (protoPath param) of
        Inl err \<Rightarrow> Inl err
      | Inr (outProtos, w1) \<Rightarrow> Inr (param\<lparr>protoPath := outProtos\<rparr>, w1))"

section \<open>Building and running the server\<close>

text \<open>
  What the orchestrator gets from outside: the \<^verbatim>\<open>flag\<close> package, which parses the
  command line (and, as it is set up with \<^verbatim>\<open>ExitOnError\<close>, may exit the process with a
  code of its own), and the programs it runs. \<open>exec_Run\<close> is \<^verbatim>\<open>Cmd.Run\<close> of a command
  line in a world: the error of the run, if any, and the file system the command
  leaves (a child process cannot change the working directory of its parent).
  \<open>exec_Start\<close> is \<^verbatim>\<open>Cmd.Start\<close> of a program.
\<close>

record flags =
  f_output :: string
  f_templateDir :: string
  f_grpcPort :: string
  f_grpcBindAddr :: string
  f_adminport :: string
  f_adminBindAddr :: string
  f_stubPath :: string
  f_imports :: string
  f_logVerbosity :: int
  f_Args :: "string list"

record external =
  flag_Parse :: "string list \<Rightarrow> int + flags"
  exec_Run :: "world \<Rightarrow> string list \<Rightarrow> string option \<times> (string \<Rightarrow> node option)"
  exec_Start :: "world \<Rightarrow> string \<Rightarrow> string option"

definition run_cmd :: "external \<Rightarrow> world \<Rightarrow> string list \<Rightarrow> string option \<times> world" where
  "run_cmd ext w argv = (case exec_Run ext w argv of (err, f) \<Rightarrow> (err, w\<lparr>fs := f\<rparr>))"

definition protoc_args :: "protocParam \<Rightarrow> string list" where
  "protoc_args param =
     [''-I'', output_p param] @
     concat (map (\<lambda>imp. [''-I'', imp]) (imports_p param)) @
     protoPath param @
     [''--go_out='' @ output_p param,
      ''--go_opt=module='' @ GENERATED_MODULE_NAME,
      ''--go-grpc_out='' @ output_p param,
      ''--go-grpc_opt=module='' @ GENERATED_MODULE_NAME] @
     [''--gripmock_out='' @ output_p param,
      ''--gripmock_opt=paths=source_relative'',
      ''--gripmock_opt=admin-port='' @ adminPort param,
      ''--gripmock_opt=grpc-address='' @ grpcAddress param,
      ''--gripmock_opt=grpc-port='' @ grpcPort param,
      ''--gripmock_opt=template-dir='' @ templateDir param]"

text \<open>
  \<^verbatim>\<open>generateProtoc\<close>, \<^verbatim>\<open>buildServer\<close> and \<^verbatim>\<open>runGrpcServer\<close>. Each returns its error or
  the world it leaves; after an error the orchestrator exits, and the world at that
  point is not part of the result.
\<close>

definition generateProtoc :: "external \<Rightarrow> world \<Rightarrow> protocParam \<Rightarrow> string + world" where
  "generateProtoc ext w param0 =
     (case fixGoPackages w param0 of
        Inl err \<Rightarrow> Inl (''Munging proto files: '' @ err)
      | Inr (param, w1) \<Rightarrow>
         (case run_cmd ext w1 (''protoc'' # protoc_args param) of
            (Some err, w2) \<Rightarrow> Inl (''running protoc: '' @ err)
          | (None, w2) \<Rightarrow> Inr w2))"

definition go_mod_edit :: "string list" where
  "go_mod_edit = [''go'', ''mod'', ''edit'', ''-module'', GENERATED_MODULE_NAME]"

definition go_mod_tidy :: "string list" where
  "go_mod_tidy = [''go'', ''mod'', ''tidy'']"

definition go_build :: "string list" where
  "go_build = [''go'', ''build'', ''-o'', ''server'', ''./cmd/...'']"

definition buildServer :: "external \<Rightarrow> world \<Rightarrow> string \<Rightarrow> string + world" where
  "buildServer ext w out =
     (case os_Getwd w of
        Inl err \<Rightarrow> Inl (''getcwd(): '' @ err)
      | Inr oldCwd \<Rightarrow>
     (case os_Chdir w out of
        Inl err \<Rightarrow> Inl (''changing directory to '' @ out @ '': '' @ err)
      | Inr w1 \<Rightarrow>
     (case run_cmd ext w1 go_mod_edit of
        (Some err, w2) \<Rightarrow> Inl (''setting go.mod name: '' @ err)
      | (None, w2) \<Rightarrow>
     (case run_cmd ext w2 go_mod_tidy of
        (Some err, w3) \<Rightarrow> Inl (''tidying go.mod: '' @ err)
      | (None, w3) \<Rightarrow>
     (case run_cmd ext w3 go_build of
        (Some err, w4) \<Rightarrow> Inl (''building server: '' @ err)
      | (None, w4) \<Rightarrow>
     (case os_Chdir w4 oldCwd of
        Inl err \<Rightarrow> Inl (''returning to old working directory: '' @ err)
      | Inr w5 \<Rightarrow> Inr w5))))))"

text \<open>
  \<^verbatim>\<open>runGrpcServer\<close> starts the server binary; a failure to start exits the process
  with \<^verbatim>\<open>EXITCODE_RUNTIME_ERROR\<close>. Otherwise a goroutine sends the result of
  \<^verbatim>\<open>run.Wait()\<close> on the channel \<^verbatim>\<open>runerr\<close>, once.
\<close>

definition runGrpcServer :: "external \<Rightarrow> world \<Rightarrow> string \<Rightarrow> int option" where
  "runGrpcServer ext w out =
     (case exec_Start ext w (path_Join [out, ''server'']) of
        Some err \<Rightarrow> Some EXITCODE_RUNTIME_ERROR
      | None \<Rightarrow> None)"

text \<open>
  The error value of \<^verbatim>\<open>Cmd.Wait\<close>, as package \<^verbatim>\<open>os/exec\<close> documents it: \<^verbatim>\<open>nil\<close> when
  the command ran and exited with status zero; an \<^verbatim>\<open>*exec.ExitError\<close> holding the
  process state when it exited with another status or was killed by a signal (its
  \<^verbatim>\<open>ExitCode()\<close> is then \<open>-1\<close>); and an error of another type for an I/O problem.
  \<^verbatim>\<open>Success()\<close> of a process state says that the exit status is zero.
\<close>

datatype wait_error = ExitError int | WaitError string

definition Success :: "int \<Rightarrow> bool" where
  "Success code = (code = 0)"

definition cmd_Wait :: "int \<Rightarrow> wait_error option" where
  "cmd_Wait status = (if status = 0 then None else Some (ExitError status))"

text \<open>
  The loop at the end of \<^verbatim>\<open>main\<close>: a \<^verbatim>\<open>select\<close> over the two channels, run again
  after every case that does not exit. An event is what one round of the \<^verbatim>\<open>select\<close>
  receives: a value from \<^verbatim>\<open>runerrchan\<close> or a signal from \<^verbatim>\<open>sigchan\<close>. The loop consumes
  one event per round; when no event is left it blocks in the \<^verbatim>\<open>select\<close> and the
  process does not exit (\<open>None\<close>). The result lists the calls of
  \<^verbatim>\<open>run.Process.Kill()\<close> made on the way. The type switch on the value received has
  a case for \<^verbatim>\<open>*exec.ExitError\<close> and a default case, which every other error and
  \<^verbatim>\<open>nil\<close> take.
\<close>

datatype event = RunErr "wait_error option" | Signal

datatype action = KillChild

fun supervise :: "event list \<Rightarrow> action list \<times> int option" where
  "supervise [] = ([], None)"
| "supervise (RunErr (Some (ExitError code)) # evs) =
     ([], Some (if Success code then 0 else EXITCODE_RUNTIME_ERROR))"
| "supervise (RunErr (Some (WaitError e)) # evs) = supervise evs"
| "supervise (RunErr None # evs) = supervise evs"
| "supervise (Signal # evs) =
     (case supervise evs of (acts, code) \<Rightarrow> (KillChild # acts, code))"

text \<open>
  \<^verbatim>\<open>main\<close>, from the command line \<^verbatim>\<open>os.Args\<close> to the exit code. The process ends by
  \<^verbatim>\<open>os.Exit\<close> or by the run-time panic of an index out of range, or it does not end
  within the events given. (The admin stub server, package \<^verbatim>\<open>stub\<close>, runs beside this
  and is not part of the model.)
\<close>

datatype outcome = Exit int | PanicIndexOutOfRange

definition main ::
  "external \<Rightarrow> world \<Rightarrow> string list \<Rightarrow> event list \<Rightarrow> action list \<times> outcome option" where
  "main ext w os_Args events =
     (if length os_Args < 2 then ([], Some PanicIndexOutOfRange)
      else
        let args = (if os_Args ! 1 = ''gripmock''
                    then take 1 os_Args @ drop 2 os_Args else os_Args) in
       (case flag_Parse ext (tl args) of
          Inl code \<Rightarrow> ([], Some (Exit code))
        | Inr fl \<Rightarrow>
        let out = f_output fl in
        if out = [] then ([], Some (Exit EXITCODE_ARGUMENTS_ERROR))
        else
       (case (if os_Stat w out = StatNotExist then os_Mkdir w out else Inr w) of
          Inl err \<Rightarrow> ([], Some (Exit EXITCODE_OTHER_ERROR))
        | Inr w1 \<Rightarrow>
        let protoPaths = f_Args fl in
        if length protoPaths = 0 then ([], Some (Exit EXITCODE_ARGUMENTS_ERROR))
        else
        let importDirs = split_on (CHR '','') (f_imports fl) in
       (case generateProtoc ext w1
               \<lparr>protoPath = protoPaths, adminPort = f_adminport fl,
                grpcAddress = f_grpcBindAddr fl, grpcPort = f_grpcPort fl,
                output_p = out, imports_p = importDirs,
                templateDir = f_templateDir fl\<rparr> of
          Inl err \<Rightarrow> ([], Some (Exit EXITCODE_BUILD_ERROR))
        | Inr w2 \<Rightarrow>
       (case buildServer ext w2 out of
          Inl err \<Rightarrow> ([], Some (Exit EXITCODE_BUILD_ERROR))
        | Inr w3 \<Rightarrow>
       (case runGrpcServer ext w3 out of
          Some code \<Rightarrow> ([], Some (Exit code))
        | None \<Rightarrow>
       (case supervise events of (acts, code) \<Rightarrow> (acts, map_option Exit code))))))))"

section \<open>Clean paths as lists of elements\<close>

text \<open>
  Notions for reasoning about the path library. An element of a clean path is not
  empty, not \<^verbatim>\<open>.\<close> and holds no slash. A stack of output elements (last element first)
  is normal when every \<^verbatim>\<open>..\<close> in it has only \<^verbatim>\<open>..\<close> below it, and none at all in a
  rooted path. \<open>render_path\<close> writes a list of elements as a path, \<open>stack_of\<close> is the
  stack \<^verbatim>\<open>Clean\<close> ends with, and \<open>dir_prefix\<close> is what stands before the last element
  of a rendered path.
\<close>

definition name_ok :: "string \<Rightarrow> bool" where
  "name_ok e = (e \<noteq> [] \<and> e \<noteq> ''.'' \<and> CHR ''/'' \<notin> set e)"

fun normal_stack :: "bool \<Rightarrow> string list \<Rightarrow> bool" where
  "normal_stack rooted [] = True"
| "normal_stack rooted (t # ts) =
     (name_ok t \<and> normal_stack rooted ts \<and>
      (t = ''..'' \<longrightarrow> \<not> rooted \<and> (\<forall>x\<in>set ts. x = ''..'')))"

definition render_path :: "bool \<Rightarrow> string list \<Rightarrow> string" where
  "render_path rooted es =
     (if rooted then ''/'' @ join_sep es else if es = [] then ''.'' else join_sep es)"

definition stack_of :: "bool \<Rightarrow> string \<Rightarrow> string list" where
  "stack_of rooted p = foldl (clean_elem rooted) [] (split_on (CHR ''/'') p)"

definition dir_prefix :: "bool \<Rightarrow> string list \<Rightarrow> string" where
  "dir_prefix r B =
     (if B = [] then (if r then ''/'' else []) else render_path r B @ ''/'')"

text \<open>
  A path that descends: a clean relative path other than \<^verbatim>\<open>.\<close> that does not start
  with a \<^verbatim>\<open>..\<close> element.
\<close>

definition descends :: "string \<Rightarrow> bool" where
  "descends q =
     (filepath_Clean q = q \<and> \<not> filepath_IsAbs q \<and> q \<noteq> ''.'' \<and> q \<noteq> ''..'' \<and>
      \<not> prefix ''../'' q)"

section \<open>Concrete inputs\<close>

text \<open>
  A small world for the build: the working directory \<^verbatim>\<open>/w\<close> with an output
  directory \<^verbatim>\<open>gen\<close> in it, commands that all succeed and leave the file system as
  it is, and a command line whose \<^verbatim>\<open>-o\<close> flag is empty.
\<close>

definition w_build :: world where
  "w_build =
     \<lparr>cwd = ''/w'',
      fs = map_of [(''/'', Directory), (''/w'', Directory), (''/w/gen'', Directory)]\<rparr>"

definition fl_empty_output :: flags where
  "fl_empty_output =
     \<lparr>f_output = [], f_templateDir = [], f_grpcPort = ''4770'', f_grpcBindAddr = [],
      f_adminport = ''4771'', f_adminBindAddr = [], f_stubPath = [], f_imports = [],
      f_logVerbosity = 1, f_Args = []\<rparr>"

definition ext_ok :: external where
  "ext_ok =
     \<lparr>flag_Parse = (\<lambda>args. Inr fl_empty_output),
      exec_Run = (\<lambda>w argv. (None, fs w)),
      exec_Start = (\<lambda>w prog. None)\<rparr>"

text \<open>
  Notions the statements about the rewriter use: what is written for a list of lines,
  each ended by a line feed, and the lines the rewriter does not drop.
\<close>

definition emit_lines :: "string list \<Rightarrow> string" where
  "emit_lines ls = concat (map (\<lambda>l. l @ [LF]) ls)"

definition kept_lines :: "string list \<Rightarrow> string list" where
  "kept_lines ls = filter (\<lambda>l. \<not> match_go_package l) ls"

text \<open>
  A proto file with a \<^verbatim>\<open>go_package\<close> option of its own and its rewritten copy, and an
  input that is one line of \<^verbatim>\<open>bufio.MaxScanTokenSize\<close> bytes.
\<close>

definition proto_in :: string where
  "proto_in =
     ''syntax = 3;'' @ [CR, LF] @ ''option go_package = x;'' @ [LF] @ ''message M {}'' @ [LF]"

definition proto_out :: string where
  "proto_out =
     ''syntax = 3;'' @ [LF] @ go_package_line ''gripmock/generated/bar'' @ [LF] @ [LF] @
     ''message M {}'' @ [LF]"

definition long_line :: string where
  "long_line = replicate MaxScanTokenSize (CHR ''a'')"

text \<open>
  A proto file whose \<^verbatim>\<open>go_package\<close> option has no blank before the equals sign.
\<close>

definition proto_unspaced :: string where
  "proto_unspaced =
     ''syntax = 3;'' @ [LF] @ ''option go_package='' @ dquote @ ''x'' @ dquote @ '';'' @ [LF]"

text \<open>
  Three small file systems for the resolver: a proto tree \<^verbatim>\<open>protos\<close> under the working
  directory \<^verbatim>\<open>/w\<close>; two import directories of which the first holds a directory named
  like the proto file of the second; and an import directory \<^verbatim>\<open>/a/b\<close> that holds a file
  named like its parent directory.
\<close>

definition w_tree :: world where
  "w_tree =
     \<lparr>cwd = ''/w'',
      fs = map_of
        [(''/'', Directory), (''/w'', Directory), (''/w/protos'', Directory),
         (''/w/protos/bar'', Directory),
         (''/w/protos/hello.proto'', File ''syntax = 3;''),
         (''/w/protos/bar/bar.proto'', File ''syntax = 3;'')]\<rparr>"

definition w_shadow :: world where
  "w_shadow =
     \<lparr>cwd = ''/w'',
      fs = map_of
        [(''/'', Directory), (''/w'', Directory), (''/w/d1'', Directory),
         (''/w/d2'', Directory), (''/w/d1/x.proto'', Directory),
         (''/w/d2/x.proto'', File ''syntax = 3;'')]\<rparr>"

definition w_escape :: world where
  "w_escape =
     \<lparr>cwd = ''/'',
      fs = map_of
        [(''/'', Directory), (''/a'', Directory), (''/a/b'', Directory),
         (''/a/b/a'', File ''syntax = 3;'')]\<rparr>"

text \<open>
  The proto tree \<^verbatim>\<open>protos\<close> again, with an output directory \<^verbatim>\<open>gen\<close> beside it, and
  parameters that name the proto file \<^verbatim>\<open>protos/hello.proto\<close> by way of the import path
  \<^verbatim>\<open>protos/bar\<close>.
\<close>

definition w_out :: world where
  "w_out =
     \<lparr>cwd = ''/w'',
      fs = map_of
        [(''/'', Directory), (''/w'', Directory), (''/w/gen'', Directory),
         (''/w/protos'', Directory), (''/w/protos/bar'', Directory),
         (''/w/protos/hello.proto'', File ''syntax = 3;''),
         (''/w/protos/bar/bar.proto'', File ''syntax = 3;'')]\<rparr>"

definition param_up :: protocParam where
  "param_up =
     \<lparr>protoPath = [''../hello.proto''], adminPort = ''4771'', grpcAddress = [],
      grpcPort = ''4770'', output_p = ''gen'', imports_p = [''protos/bar''],
      templateDir = []\<rparr>"

section \<open>The supervision loop and the exit code\<close>

lemma supervise_signals: "supervise (replicate n Signal) = (replicate n KillChild, None)"
  by (induction n) auto

lemma supervise_exit_needs_ExitError:
  "snd (supervise evs) = Some c \<Longrightarrow>
   \<exists>code. RunErr (Some (ExitError code)) \<in> set evs \<and>
          c = (if Success code then 0 else EXITCODE_RUNTIME_ERROR)"
proof (induction evs rule: supervise.induct)
  case 1
  then show ?case by simp
next
  case (2 code evs)
  then have "c = (if Success code then 0 else EXITCODE_RUNTIME_ERROR)" by simp
  then show ?case by (intro exI [of _ code]) simp
next
  case (3 e evs)
  then obtain code where "RunErr (Some (ExitError code)) \<in> set evs"
    "c = (if Success code then 0 else EXITCODE_RUNTIME_ERROR)" by auto
  then show ?case by (intro exI [of _ code]) simp
next
  case (4 evs)
  then obtain code where "RunErr (Some (ExitError code)) \<in> set evs"
    "c = (if Success code then 0 else EXITCODE_RUNTIME_ERROR)" by auto
  then show ?case by (intro exI [of _ code]) simp
next
  case (5 evs)
  then have "snd (supervise evs) = Some c" by (simp split: prod.splits)
  with 5 obtain code where "RunErr (Some (ExitError code)) \<in> set evs"
    "c = (if Success code then 0 else EXITCODE_RUNTIME_ERROR)" by auto
  then show ?case by (intro exI [of _ code]) simp
qed

text \<open>
  A child that exits with a status other than zero ends the orchestrator with
  \<^verbatim>\<open>EXITCODE_RUNTIME_ERROR\<close> at once, whatever else is pending.
\<close>

lemma supervise_failed_child:
  "status \<noteq> 0 \<Longrightarrow>
   supervise (RunErr (cmd_Wait status) # evs) = ([], Some EXITCODE_RUNTIME_ERROR)"
  by (simp add: cmd_Wait_def Success_def)

text \<open>
  A signal is answered by a kill of the child, and the loop goes on to wait: it does
  not exit before a value arrives from the child's wait.
\<close>

lemma supervise_signal_forwards_kill:
  "fst (supervise (Signal # evs)) = KillChild # fst (supervise evs) \<and>
   snd (supervise (Signal # evs)) = snd (supervise evs)"
  by (simp split: prod.splits)

text \<open>
  C1. The child server exits with status 0: \<^verbatim>\<open>run.Wait()\<close> returns \<^verbatim>\<open>nil\<close>, which is not an
  \<^verbatim>\<open>*exec.ExitError\<close>, so the type switch takes its default case, logs and runs the
  \<^verbatim>\<open>select\<close> again. Whatever number of signals follows, the orchestrator never calls
  \<^verbatim>\<open>os.Exit\<close>: it does not exit with code 0.
\<close>

theorem clean_child_exit_never_exits:
  "snd (supervise (RunErr (cmd_Wait 0) # replicate n Signal)) = None"
  by (simp add: cmd_Wait_def supervise_signals)

text \<open>
  C2. The child exits on its own with status 0 before any signal: the orchestrator
  does not exit but waits in the \<^verbatim>\<open>select\<close> again, and a signal that arrives then is
  answered with a kill of the child that is already gone, still without an exit.
\<close>

theorem clean_child_exit_waits_on_signals:
  "supervise [RunErr (cmd_Wait 0)] = ([], None) \<and>
   supervise [RunErr (cmd_Wait 0), Signal] = ([KillChild], None)"
  by (simp add: cmd_Wait_def)

text \<open>
  C9. \<^verbatim>\<open>main\<close> reads \<^verbatim>\<open>os.Args[1]\<close> before anything else: with no command-line argument
  (\<^verbatim>\<open>os.Args\<close> holds the program name at most) it panics with an index out of range,
  and it can exit with \<^verbatim>\<open>EXITCODE_ARGUMENTS_ERROR\<close> only when \<^verbatim>\<open>os.Args\<close> holds at least
  one argument after the program name.
\<close>

theorem main_args_index:
  "(length os_Args < 2 \<longrightarrow> main ext w os_Args events = ([], Some PanicIndexOutOfRange)) \<and>
   (snd (main ext w os_Args events) = Some (Exit EXITCODE_ARGUMENTS_ERROR) \<longrightarrow>
      2 \<le> length os_Args)"
  by (auto simp: main_def)

theorem main_args_index_witness:
  "main ext_ok w_build [''gripmock''] [] = ([], Some PanicIndexOutOfRange) \<and>
   snd (main ext_ok w_build [''gripmock'', ''-o'', []] []) =
     Some (Exit EXITCODE_ARGUMENTS_ERROR) \<and>
   2 \<le> length [''gripmock'', ''-o'', []]"
  using main_args_index [of "[''gripmock'']" ext_ok w_build "[]"]
        main_args_index [of "[''gripmock'', ''-o'', []]" ext_ok w_build "[]"]
  by (simp add: main_def ext_ok_def fl_empty_output_def)

section \<open>The working directory across the build\<close>

lemma run_cmd_cwd: "run_cmd ext w argv = (e, w') \<Longrightarrow> cwd w' = cwd w"
  by (auto simp: run_cmd_def split: prod.splits)

lemma os_Chdir_cwd: "os_Chdir w d = Inr w' \<Longrightarrow> cwd w' = abs_key w d"
  by (auto simp: os_Chdir_def split: option.splits node.splits)

lemma buildServer_Inr:
  assumes "buildServer ext w out = Inr w'"
  shows "\<exists>w1 w2 w3 w4. os_Getwd w = Inr (cwd w) \<and> os_Chdir w out = Inr w1 \<and>
       run_cmd ext w1 go_mod_edit = (None, w2) \<and>
       run_cmd ext w2 go_mod_tidy = (None, w3) \<and>
       run_cmd ext w3 go_build = (None, w4) \<and>
       os_Chdir w4 (cwd w) = Inr w'"
proof -
  obtain oldCwd where g: "os_Getwd w = Inr oldCwd"
    using assms by (cases "os_Getwd w") (simp_all add: buildServer_def)
  then have old: "oldCwd = cwd w"
    by (simp add: os_Getwd_def split: if_splits)
  obtain w1 where c1: "os_Chdir w out = Inr w1"
    using assms g by (cases "os_Chdir w out") (simp_all add: buildServer_def)
  obtain e1 w2 where r1: "run_cmd ext w1 go_mod_edit = (e1, w2)"
    by (cases "run_cmd ext w1 go_mod_edit")
  have e1: "e1 = None"
    using assms g c1 r1 by (cases e1) (simp_all add: buildServer_def)
  obtain e2 w3 where r2: "run_cmd ext w2 go_mod_tidy = (e2, w3)"
    by (cases "run_cmd ext w2 go_mod_tidy")
  have e2: "e2 = None"
    using assms g c1 r1 e1 r2 by (cases e2) (simp_all add: buildServer_def)
  obtain e3 w4 where r3: "run_cmd ext w3 go_build = (e3, w4)"
    by (cases "run_cmd ext w3 go_build")
  have e3: "e3 = None"
    using assms g c1 r1 e1 r2 e2 r3 by (cases e3) (simp_all add: buildServer_def)
  have c2: "os_Chdir w4 oldCwd = Inr w'"
    using assms g c1 r1 e1 r2 e2 r3 e3
    by (cases "os_Chdir w4 oldCwd") (simp_all add: buildServer_def)
  show ?thesis
    using g old c1 r1 e1 r2 e2 r3 e3 c2 by blast
qed

text \<open>
  C10. The working directory is an absolute, clean path, as \<^verbatim>\<open>os.Getwd\<close> reports it.
  When \<^verbatim>\<open>buildServer\<close> returns without error, the three build commands have run in
  the output directory and the working directory is the one before the call.
\<close>

theorem buildServer_restores_cwd:
  assumes "filepath_IsAbs (cwd w)" and "filepath_Clean (cwd w) = cwd w"
    and "buildServer ext w out = Inr w'"
  shows "cwd w' = cwd w \<and>
    (\<exists>w1 w2 w3 w4. os_Chdir w out = Inr w1 \<and> cwd w1 = abs_key w out \<and>
       run_cmd ext w1 go_mod_edit = (None, w2) \<and> cwd w2 = cwd w1 \<and>
       run_cmd ext w2 go_mod_tidy = (None, w3) \<and> cwd w3 = cwd w1 \<and>
       run_cmd ext w3 go_build = (None, w4) \<and> cwd w4 = cwd w1 \<and>
       os_Chdir w4 (cwd w) = Inr w')"
proof -
  from buildServer_Inr [OF assms(3)] obtain w1 w2 w3 w4 where
    c1: "os_Chdir w out = Inr w1"
    and r1: "run_cmd ext w1 go_mod_edit = (None, w2)"
    and r2: "run_cmd ext w2 go_mod_tidy = (None, w3)"
    and r3: "run_cmd ext w3 go_build = (None, w4)"
    and c2: "os_Chdir w4 (cwd w) = Inr w'"
    by blast
  have k: "abs_key w4 (cwd w) = cwd w"
    using assms(1,2) by (simp add: abs_key_def)
  have restored: "cwd w' = cwd w"
    using os_Chdir_cwd [OF c2] k by simp
  have there: "cwd w1 = abs_key w out"
    by (rule os_Chdir_cwd [OF c1])
  have stay: "cwd w2 = cwd w1" "cwd w3 = cwd w1" "cwd w4 = cwd w1"
    using run_cmd_cwd [OF r1] run_cmd_cwd [OF r2] run_cmd_cwd [OF r3] by simp_all
  show ?thesis
    using restored there stay c1 r1 r2 r3 c2 by blast
qed

theorem buildServer_restores_cwd_witness:
  "filepath_IsAbs (cwd w_build) \<and> filepath_Clean (cwd w_build) = cwd w_build \<and>
   \<not> isl (buildServer ext_ok w_build ''gen'') \<and>
   cwd (projr (buildServer ext_ok w_build ''gen'')) = cwd w_build"
proof -
  have a: "filepath_IsAbs (cwd w_build)" by code_simp
  have b: "filepath_Clean (cwd w_build) = cwd w_build" by code_simp
  have c: "\<not> isl (buildServer ext_ok w_build ''gen'')" by code_simp
  then obtain w' where d: "buildServer ext_ok w_build ''gen'' = Inr w'"
    by (cases "buildServer ext_ok w_build ''gen''") auto
  from buildServer_restores_cwd [OF a b d] have "cwd w' = cwd w_build" by simp
  with a b c d show ?thesis by simp
qed

section \<open>The namespace rewriter: what it writes and when it fails\<close>

lemma emit_lines_simps [simp]:
  "emit_lines [] = []" "emit_lines (l # ls) = l @ LF # emit_lines ls"
  "emit_lines (xs @ ys) = emit_lines xs @ emit_lines ys"
  by (simp_all add: emit_lines_def)

lemma syntax_not_go_package: "match_syntax l \<Longrightarrow> \<not> match_go_package l"
  by (auto simp: match_syntax_def match_go_package_def prefix_def)

lemma scan_loop_kept: "scan_loop pkg st ls = scan_loop pkg st (kept_lines ls)"
  by (induction ls arbitrary: st) (auto simp: kept_lines_def)

lemma scan_loop_no_syntax:
  "\<forall>l\<in>set ks. \<not> match_go_package l \<and> \<not> match_syntax l \<Longrightarrow>
   scan_loop pkg (found, acc) ks = Inr (found, acc @ emit_lines ks)"
  by (induction ks arbitrary: acc) auto

lemma scan_loop_append:
  "\<forall>l\<in>set pre. \<not> match_go_package l \<and> \<not> match_syntax l \<Longrightarrow>
   scan_loop pkg (found, acc) (pre @ ks) = scan_loop pkg (found, acc @ emit_lines pre) ks"
  by (induction pre arbitrary: acc) auto

lemma scan_loop_first_syntax:
  assumes "\<forall>l\<in>set pre. \<not> match_go_package l \<and> \<not> match_syntax l" and "match_syntax sl"
  shows "scan_loop pkg (found, acc) (pre @ sl # post) =
     (if found then Inl ERR_MULTIPLE_SYNTAX
      else scan_loop pkg
             (True, acc @ emit_lines pre @ sl @ [LF] @ go_package_line pkg @ [LF] @ [LF]) post)"
  using assms by (simp add: scan_loop_append syntax_not_go_package)

lemma scan_loop_found_syntax:
  assumes "\<forall>l\<in>set ks. \<not> match_go_package l" and "list_ex match_syntax ks"
  shows "scan_loop pkg (True, acc) ks = Inl ERR_MULTIPLE_SYNTAX"
proof -
  from assms(2) obtain pre sl post where
    ks: "ks = pre @ sl # post" and sl: "match_syntax sl" and pre: "\<forall>l\<in>set pre. \<not> match_syntax l"
    unfolding list_ex_iff by (metis split_list_first_prop)
  from assms(1) ks pre have "\<forall>l\<in>set pre. \<not> match_go_package l \<and> \<not> match_syntax l" by auto
  from scan_loop_first_syntax [OF this sl] ks show ?thesis by simp
qed


lemma scanner_tokens_all:
  "scanner_Err inp = None \<Longrightarrow> scanner_tokens inp = ScanLines inp"
  by (auto simp: scanner_Err_def scanner_tokens_def ScanLines_def list_all_iff
           split: if_splits intro: arg_cong [where f = "map dropCR"] takeWhile_eq_all_conv [THEN iffD2])

lemma scanner_tokens_subset:
  "set (scanner_tokens inp) \<subseteq> set (ScanLines inp)"
  by (auto simp: scanner_tokens_def ScanLines_def dest: set_takeWhileD)

lemma fixGoPackageProtoStream_Inr:
  assumes "fixGoPackageProtoStream inp newPackage = Inr out"
  shows "newPackage \<noteq> [] \<and> scanner_Err inp = None \<and>
         scan_loop newPackage (False, []) (kept_lines (ScanLines inp)) = Inr (True, out)"
proof -
  from assms have ne: "newPackage \<noteq> []"
    by (auto simp: fixGoPackageProtoStream_def split: if_splits)
  obtain r where r: "scan_loop newPackage (False, []) (scanner_tokens inp) = r" by simp
  from assms ne r obtain found out' where
    r': "r = Inr (found, out')"
    by (cases r) (auto simp: fixGoPackageProtoStream_def)
  from assms ne r r' have e: "scanner_Err inp = None"
    by (cases "scanner_Err inp") (auto simp: fixGoPackageProtoStream_def)
  from assms ne r r' e have "found" "out' = out"
    by (auto simp: fixGoPackageProtoStream_def split: if_splits)
  with r r' e ne show ?thesis
    using scan_loop_kept [of newPackage "(False, [])" "ScanLines inp"]
    by (simp add: scanner_tokens_all)
qed

lemma kept_lines_no_go_package: "\<forall>l\<in>set (kept_lines ls). \<not> match_go_package l"
  by (simp add: kept_lines_def)

lemma rewrite_shape:
  assumes "fixGoPackageProtoStream inp newPackage = Inr out"
  shows "\<exists>pre sl post.
      kept_lines (ScanLines inp) = pre @ sl # post \<and> match_syntax sl \<and>
      (\<forall>l\<in>set (pre @ post). \<not> match_syntax l) \<and>
      out = emit_lines (pre @ [sl, go_package_line newPackage, []] @ post)"
proof -
  let ?ks = "kept_lines (ScanLines inp)"
  from fixGoPackageProtoStream_Inr [OF assms] have
    run: "scan_loop newPackage (False, []) ?ks = Inr (True, out)" by simp
  have nogp: "\<forall>l\<in>set ?ks. \<not> match_go_package l" by (rule kept_lines_no_go_package)
  have "list_ex match_syntax ?ks"
  proof (rule ccontr)
    assume "\<not> list_ex match_syntax ?ks"
    with nogp have "\<forall>l\<in>set ?ks. \<not> match_go_package l \<and> \<not> match_syntax l"
      by (auto simp: list_ex_iff)
    from scan_loop_no_syntax [OF this] run show False by simp
  qed
  then obtain pre sl post where
    ks: "?ks = pre @ sl # post" and sl: "match_syntax sl"
    and pre: "\<forall>l\<in>set pre. \<not> match_syntax l"
    unfolding list_ex_iff by (metis split_list_first_prop)
  from nogp ks pre have pre': "\<forall>l\<in>set pre. \<not> match_go_package l \<and> \<not> match_syntax l"
    by auto
  from nogp ks have postgp: "\<forall>l\<in>set post. \<not> match_go_package l" by auto
  let ?acc = "emit_lines pre @ sl @ [LF] @ go_package_line newPackage @ [LF] @ [LF]"
  from scan_loop_first_syntax [OF pre' sl, of newPackage False "[]" post] run ks
  have run2: "scan_loop newPackage (True, ?acc) post = Inr (True, out)" by simp
  have post: "\<not> list_ex match_syntax post"
  proof
    assume "list_ex match_syntax post"
    from scan_loop_found_syntax [OF postgp this] run2 show False by simp
  qed
  with postgp have "\<forall>l\<in>set post. \<not> match_go_package l \<and> \<not> match_syntax l"
    by (auto simp: list_ex_iff)
  from scan_loop_no_syntax [OF this] run2 have "out = ?acc @ emit_lines post" by simp
  with ks sl pre post show ?thesis
    by (intro exI [of _ pre] exI [of _ sl] exI [of _ post]) (auto simp: list_ex_iff)
qed

lemma split_on_not_Nil [simp]: "split_on d s \<noteq> []"
  by (induction s) (auto split: list.splits)

lemma split_on_no_sep: "d \<notin> set s \<Longrightarrow> split_on d s = [s]"
  by (induction s) auto

lemma split_on_append_sep:
  "d \<notin> set a \<Longrightarrow> split_on d (a @ d # b) = a # split_on d b"
  by (induction a) auto

lemma split_on_sep_free: "l \<in> set (split_on d s) \<Longrightarrow> d \<notin> set l"
  by (induction s arbitrary: l) (auto split: if_splits list.splits)

lemma split_on_emit_lines:
  "\<forall>l\<in>set ls. LF \<notin> set l \<Longrightarrow> split_on LF (emit_lines ls) = ls @ [[]]"
  by (induction ls) (simp_all add: split_on_append_sep)

lemma raw_lines_emit_lines:
  "\<forall>l\<in>set ls. LF \<notin> set l \<Longrightarrow> raw_lines (emit_lines ls) = ls"
  by (simp add: raw_lines_def split_on_emit_lines)

lemma raw_lines_LF_free: "l \<in> set (raw_lines s) \<Longrightarrow> LF \<notin> set l"
  by (auto simp: raw_lines_def Let_def split: if_splits dest: split_on_sep_free in_set_butlastD)

lemma set_dropCR: "set (dropCR l) \<subseteq> set l"
  by (auto simp: dropCR_def dest: in_set_butlastD)

lemma ScanLines_LF_free: "l \<in> set (ScanLines s) \<Longrightarrow> LF \<notin> set l"
  using set_dropCR by (fastforce simp: ScanLines_def dest: raw_lines_LF_free)

lemma prefix_dropCR: "prefix (dropCR l) l"
  by (simp add: dropCR_def prefixeq_butlast)

lemma match_syntax_mono: "prefix p l \<Longrightarrow> match_syntax p \<Longrightarrow> match_syntax l"
  by (auto simp: match_syntax_def prefix_def split: list.splits)

lemma dropWhile_blank_append:
  "dropWhile is_blank r \<noteq> [] \<Longrightarrow> dropWhile is_blank (r @ e) = dropWhile is_blank r @ e"
  by (induction r) auto

lemma prefix_Cons_not_Nil: "prefix (x # xs) r \<Longrightarrow> r \<noteq> []"
  by (cases r) auto

lemma prefix_drop_append:
  "prefix q x \<Longrightarrow> length q = n \<Longrightarrow> drop n (x @ e) = drop n x @ e"
  by (auto simp: prefix_def)

lemma match_go_package_mono:
  assumes "prefix p l" and "match_go_package p"
  shows "match_go_package l"
proof -
  from assms(1) obtain e where l: "l = p @ e" by (auto simp: prefix_def)
  let ?r1 = "drop 6 p"
  let ?r2 = "dropWhile is_blank ?r1"
  let ?r3 = "drop 10 ?r2"
  let ?r4 = "dropWhile is_blank ?r3"
  from assms(2) have A: "prefix ''option'' p" and B: "?r2 \<noteq> ?r1"
    and C: "prefix ''go_package'' ?r2" and D: "?r4 \<noteq> ?r3" and E: "prefix ''='' ?r4"
    by (simp_all add: match_go_package_def Let_def)
  have ne2: "?r2 \<noteq> []" by (rule prefix_Cons_not_Nil [OF C])
  have ne4: "?r4 \<noteq> []" by (rule prefix_Cons_not_Nil [OF E])
  have r1: "drop 6 l = ?r1 @ e"
    using prefix_drop_append [OF A, of 6 e] l by simp
  have r2: "dropWhile is_blank (?r1 @ e) = ?r2 @ e"
    by (rule dropWhile_blank_append [OF ne2])
  have r3: "drop 10 (?r2 @ e) = ?r3 @ e"
    using prefix_drop_append [OF C, of 10 e] by simp
  have r4: "dropWhile is_blank (?r3 @ e) = ?r4 @ e"
    by (rule dropWhile_blank_append [OF ne4])
  have "prefix ''option'' l" using A l by (auto simp: prefix_def)
  moreover have "?r2 @ e \<noteq> ?r1 @ e" using B by simp
  moreover have "prefix ''go_package'' (?r2 @ e)" using C by (auto simp: prefix_def)
  moreover have "?r4 @ e \<noteq> ?r3 @ e" using D by simp
  moreover have "prefix ''='' (?r4 @ e)" using E by (auto simp: prefix_def)
  ultimately show ?thesis
    unfolding match_go_package_def Let_def r1 r2 r3 r4 by simp
qed

lemma match_syntax_dropCR: "match_syntax l \<Longrightarrow> match_syntax (dropCR l)"
  by (auto simp: match_syntax_def dropCR_def prefix_def is_blank_def CR_def TAB_def
           split: list.splits if_splits)

lemma go_package_line_matches: "match_go_package (go_package_line pkg)"
  by (simp add: match_go_package_def go_package_line_def is_blank_def TAB_def dquote_def)

lemma go_package_line_not_syntax: "\<not> match_syntax (go_package_line pkg)"
  by (simp add: match_syntax_def go_package_line_def)

lemma dropCR_go_package_line: "dropCR (go_package_line pkg) = go_package_line pkg"
  by (simp add: dropCR_def go_package_line_def CR_def)

lemma go_package_line_LF_free: "LF \<notin> set pkg \<Longrightarrow> LF \<notin> set (go_package_line pkg)"
  by (simp add: go_package_line_def dquote_def LF_def)

lemma filter_syntax_kept: "filter match_syntax (kept_lines ls) = filter match_syntax ls"
  by (induction ls) (auto simp: kept_lines_def syntax_not_go_package)

lemma scan_loop_result:
  assumes "\<forall>l\<in>set ks. \<not> match_go_package l"
  shows "scan_loop pkg (False, acc) ks =
     (if 2 \<le> length (filter match_syntax ks) then Inl ERR_MULTIPLE_SYNTAX
      else case scan_loop pkg (False, acc) ks of
             Inl e \<Rightarrow> Inr (False, [])
           | Inr (found, out) \<Rightarrow> Inr (list_ex match_syntax ks, out))"
proof (cases "list_ex match_syntax ks")
  case False
  with assms have a: "\<forall>l\<in>set ks. \<not> match_go_package l \<and> \<not> match_syntax l"
    by (auto simp: list_ex_iff)
  then have "filter match_syntax ks = []" by (auto simp: filter_empty_conv)
  with scan_loop_no_syntax [OF a] False show ?thesis by simp
next
  case True
  then obtain pre sl post where
    ks: "ks = pre @ sl # post" and sl: "match_syntax sl"
    and pre: "\<forall>l\<in>set pre. \<not> match_syntax l"
    unfolding list_ex_iff by (metis split_list_first_prop)
  from assms ks pre have pre': "\<forall>l\<in>set pre. \<not> match_go_package l \<and> \<not> match_syntax l"
    by auto
  from assms ks have postgp: "\<forall>l\<in>set post. \<not> match_go_package l" by auto
  from pre have fpre: "filter match_syntax pre = []" by (auto simp: filter_empty_conv)
  have len: "length (filter match_syntax ks) = Suc (length (filter match_syntax post))"
    using ks sl fpre by simp
  let ?acc = "acc @ emit_lines pre @ sl @ [LF] @ go_package_line pkg @ [LF] @ [LF]"
  have step: "scan_loop pkg (False, acc) ks = scan_loop pkg (True, ?acc) post"
    using scan_loop_first_syntax [OF pre' sl, of pkg False acc post] ks by simp
  show ?thesis
  proof (cases "list_ex match_syntax post")
    case True
    then have "filter match_syntax post \<noteq> []"
      by (auto simp: list_ex_iff filter_empty_conv)
    then have "2 \<le> length (filter match_syntax ks)"
      using len by (cases "filter match_syntax post") auto
    with scan_loop_found_syntax [OF postgp True] step show ?thesis by simp
  next
    case False
    with postgp have a: "\<forall>l\<in>set post. \<not> match_go_package l \<and> \<not> match_syntax l"
      by (auto simp: list_ex_iff)
    then have "filter match_syntax post = []" by (auto simp: filter_empty_conv)
    with len have "\<not> 2 \<le> length (filter match_syntax ks)" by simp
    with scan_loop_no_syntax [OF a] step \<open>list_ex match_syntax ks\<close> show ?thesis by simp
  qed
qed

lemma scanner_Err_cases: "scanner_Err inp = None \<or> scanner_Err inp = Some ErrTooLong"
  by (simp add: scanner_Err_def)

lemma no_syntax_tokens:
  "\<not> list_ex match_syntax (ScanLines inp) \<Longrightarrow> \<not> list_ex match_syntax (scanner_tokens inp)"
  using scanner_tokens_subset [of inp] by (auto simp: list_ex_iff)

lemma stream_no_syntax:
  assumes "newPackage \<noteq> []" and "\<not> list_ex match_syntax (ScanLines inp)"
  shows "fixGoPackageProtoStream inp newPackage =
           Inl (case scanner_Err inp of None \<Rightarrow> ERR_NO_SYNTAX | Some e \<Rightarrow> e)"
proof -
  let ?ks = "kept_lines (scanner_tokens inp)"
  from no_syntax_tokens [OF assms(2)] have "\<forall>l\<in>set ?ks. \<not> match_syntax l"
    by (auto simp: list_ex_iff kept_lines_def)
  with kept_lines_no_go_package [of "scanner_tokens inp"]
  have "\<forall>l\<in>set ?ks. \<not> match_go_package l \<and> \<not> match_syntax l" by simp
  from scan_loop_no_syntax [OF this, of newPackage False "[]"]
  have "scan_loop newPackage (False, []) (scanner_tokens inp) = Inr (False, emit_lines ?ks)"
    using scan_loop_kept [of newPackage "(False, [])" "scanner_tokens inp"] by simp
  with assms(1) show ?thesis
    by (simp add: fixGoPackageProtoStream_def split: option.splits)
qed

lemma stream_many_syntax:
  assumes "newPackage \<noteq> []" and "2 \<le> length (filter match_syntax (scanner_tokens inp))"
  shows "fixGoPackageProtoStream inp newPackage = Inl ERR_MULTIPLE_SYNTAX"
proof -
  let ?ks = "kept_lines (scanner_tokens inp)"
  have "scan_loop newPackage (False, []) ?ks = Inl ERR_MULTIPLE_SYNTAX"
    using scan_loop_result [of "kept_lines (scanner_tokens inp)" newPackage "[]",
        OF kept_lines_no_go_package] assms(2)
    by (simp add: filter_syntax_kept)
  then have "scan_loop newPackage (False, []) (scanner_tokens inp) = Inl ERR_MULTIPLE_SYNTAX"
    using scan_loop_kept [of newPackage "(False, [])" "scanner_tokens inp"] by simp
  with assms(1) show ?thesis by (simp add: fixGoPackageProtoStream_def)
qed

lemma stream_scanner_error:
  assumes "newPackage \<noteq> []" and "scanner_Err inp = Some e"
  shows "isl (fixGoPackageProtoStream inp newPackage)"
  using assms by (auto simp: fixGoPackageProtoStream_def split: sum.splits)


lemma kept_lines_subset: "set (kept_lines ls) \<subseteq> set ls"
  by (auto simp: kept_lines_def)

lemma not_syntax_dropCR: "\<not> match_syntax l \<Longrightarrow> \<not> match_syntax (dropCR l)"
  using match_syntax_mono [OF prefix_dropCR] by blast

lemma not_go_package_dropCR: "\<not> match_go_package l \<Longrightarrow> \<not> match_go_package (dropCR l)"
  using match_go_package_mono [OF prefix_dropCR] by blast

lemma filter_map_none: "\<forall>x\<in>set xs. \<not> P (f x) \<Longrightarrow> filter P (map f xs) = []"
  by (induction xs) auto

lemma rescan_shape:
  assumes lines: "\<forall>l\<in>set (pre @ sl # post). LF \<notin> set l \<and> \<not> match_go_package l"
    and sl: "match_syntax sl" and rest: "\<forall>l\<in>set (pre @ post). \<not> match_syntax l"
    and pkg: "LF \<notin> set newPackage"
    and out: "out = emit_lines (pre @ [sl, go_package_line newPackage, []] @ post)"
  shows "ScanLines out =
           map dropCR pre @ [dropCR sl, go_package_line newPackage, []] @ map dropCR post \<and>
         filter match_go_package (ScanLines out) = [go_package_line newPackage] \<and>
         filter match_syntax (ScanLines out) = [dropCR sl]"
proof -
  let ?ls = "pre @ [sl, go_package_line newPackage, []] @ post"
  have "\<forall>l\<in>set ?ls. LF \<notin> set l"
    using lines go_package_line_LF_free [OF pkg] by auto
  then have "raw_lines out = ?ls" unfolding out by (rule raw_lines_emit_lines)
  then have scan: "ScanLines out =
      map dropCR pre @ [dropCR sl, go_package_line newPackage, []] @ map dropCR post"
    by (simp add: ScanLines_def dropCR_go_package_line) (simp add: dropCR_def)
  have gp_pre: "filter match_go_package (map dropCR pre) = []"
    and gp_post: "filter match_go_package (map dropCR post) = []"
    using lines by (auto intro!: filter_map_none not_go_package_dropCR)
  have sy_pre: "filter match_syntax (map dropCR pre) = []"
    and sy_post: "filter match_syntax (map dropCR post) = []"
    using rest by (auto intro!: filter_map_none not_syntax_dropCR)
  have gp_sl: "\<not> match_go_package (dropCR sl)"
    using lines not_go_package_dropCR [of sl] by auto
  have sy_sl: "match_syntax (dropCR sl)" by (rule match_syntax_dropCR [OF sl])
  have e1: "\<not> match_go_package []" by (simp add: match_go_package_def)
  have e2: "\<not> match_syntax []" by (simp add: match_syntax_def)
  show ?thesis
    unfolding scan
    using gp_pre gp_post sy_pre sy_post gp_sl sy_sl e1 e2
      go_package_line_matches [of newPackage] go_package_line_not_syntax [of newPackage]
    by simp
qed

text \<open>
  What the rewriter writes when it accepts its input. A \<^verbatim>\<open>go_package\<close> line is a line
  the pattern \<^verbatim>\<open>^option[ \t]+go_package[ \t]+=\<close> matches, a syntax line one the pattern
  \<^verbatim>\<open>^syntax[ \t]\<close> matches. The lines the rewriter keeps (every input line but the
  \<^verbatim>\<open>go_package\<close> lines) hold exactly one syntax line; the output is these lines, each
  unmodified and ended by a line feed, with the new \<^verbatim>\<open>go_package\<close> option and an empty
  line put right after the syntax line. Read back line by line, for a namespace that
  is itself one line, the output has exactly one \<^verbatim>\<open>go_package\<close> line in this sense.
\<close>

lemma rewrite_output_shape:
  assumes "fixGoPackageProtoStream inp newPackage = Inr out"
  shows "\<exists>pre sl post.
      kept_lines (ScanLines inp) = pre @ sl # post \<and> match_syntax sl \<and>
      (\<forall>l\<in>set (pre @ post). \<not> match_syntax l) \<and>
      out = emit_lines (pre @ [sl, go_package_line newPackage, []] @ post) \<and>
      (LF \<notin> set newPackage \<longrightarrow>
         ScanLines out =
           map dropCR pre @ [dropCR sl, go_package_line newPackage, []] @ map dropCR post \<and>
         filter match_go_package (ScanLines out) = [go_package_line newPackage] \<and>
         filter match_syntax (ScanLines out) = [dropCR sl])"
proof -
  from rewrite_shape [OF assms] obtain pre sl post where
    ks: "kept_lines (ScanLines inp) = pre @ sl # post" and sl: "match_syntax sl"
    and rest: "\<forall>l\<in>set (pre @ post). \<not> match_syntax l"
    and out: "out = emit_lines (pre @ [sl, go_package_line newPackage, []] @ post)"
    by blast
  have lines: "\<forall>l\<in>set (pre @ sl # post). LF \<notin> set l \<and> \<not> match_go_package l"
  proof
    fix l assume "l \<in> set (pre @ sl # post)"
    then have l: "l \<in> set (kept_lines (ScanLines inp))" using ks by simp
    then have "l \<in> set (ScanLines inp)" using kept_lines_subset by blast
    then have "LF \<notin> set l" by (rule ScanLines_LF_free)
    moreover have "\<not> match_go_package l" using l kept_lines_no_go_package by blast
    ultimately show "LF \<notin> set l \<and> \<not> match_go_package l" ..
  qed
  have "LF \<notin> set newPackage \<longrightarrow>
         ScanLines out =
           map dropCR pre @ [dropCR sl, go_package_line newPackage, []] @ map dropCR post \<and>
         filter match_go_package (ScanLines out) = [go_package_line newPackage] \<and>
         filter match_syntax (ScanLines out) = [dropCR sl]"
    using rescan_shape [OF lines sl rest _ out] by blast
  then show ?thesis using ks sl rest out by blast
qed

lemmas stream_eval =
  fixGoPackageProtoStream_def scanner_tokens_def scanner_Err_def ScanLines_def raw_lines_def
  fits_def MaxScanTokenSize_def dropCR_def LF_def CR_def TAB_def match_go_package_def
  match_syntax_def is_blank_def go_package_line_def dquote_def

lemma rewrite_example:
  "fixGoPackageProtoStream proto_in ''gripmock/generated/bar'' = Inr proto_out"
  by (simp add: proto_in_def proto_out_def stream_eval)

text \<open>
  C6. The input has a syntax line and the option \<^verbatim>\<open>option go_package="x";\<close>, written
  without a blank before the equals sign. The pattern that is to find every
  \<^verbatim>\<open>go_package\<close> line asks for a blank there and does not match it. The rewriter
  accepts the input and keeps the line: the output holds two \<^verbatim>\<open>go_package\<close> options,
  the new one after the syntax line and the file's own, not exactly one.
\<close>

theorem unspaced_go_package_kept:
  "fixGoPackageProtoStream proto_unspaced ''gripmock/generated/bar'' =
     Inr (''syntax = 3;'' @ [LF] @ go_package_line ''gripmock/generated/bar'' @ [LF, LF] @
          ''option go_package='' @ dquote @ ''x'' @ dquote @ '';'' @ [LF]) \<and>
   length (filter (prefix ''option go_package'')
     (ScanLines (projr (fixGoPackageProtoStream proto_unspaced ''gripmock/generated/bar'')))) = 2"
  by (simp add: proto_unspaced_def stream_eval)

lemma split_on_long_line: "split_on LF long_line = [long_line]"
  by (rule split_on_no_sep) (simp add: long_line_def LF_def)

lemma long_line_not_Nil: "long_line \<noteq> []"
  by (simp add: long_line_def MaxScanTokenSize_def)

lemma long_line_last: "last long_line = CHR ''a''"
  by (simp add: long_line_def MaxScanTokenSize_def)

lemma raw_lines_long_line: "raw_lines long_line = [long_line]"
  by (simp add: raw_lines_def split_on_long_line long_line_not_Nil)

lemma ScanLines_long_line: "ScanLines long_line = [long_line]"
  by (simp add: ScanLines_def raw_lines_long_line dropCR_def long_line_last CR_def)

lemma long_line_no_syntax: "\<not> match_syntax long_line"
proof
  assume "match_syntax long_line"
  then have "prefix ''syntax'' long_line" by (simp add: match_syntax_def)
  then obtain zs where z: "long_line = ''syntax'' @ zs" by (auto simp: prefix_def)
  have "CHR ''s'' \<in> set (''syntax'' @ zs)" by simp
  then have "CHR ''s'' \<in> set long_line" by (simp only: z)
  then show False by (simp add: long_line_def)
qed

lemma long_line_too_long:
  "fixGoPackageProtoStream long_line ''p'' = Inl ErrTooLong"
  by (simp add: fixGoPackageProtoStream_def scanner_tokens_def scanner_Err_def
                raw_lines_long_line fits_def) (simp add: long_line_def)



section \<open>The path library: cleaning, joining and splitting\<close>

subsection \<open>Splitting and joining\<close>

lemma split_on_append:
  "split_on d (a @ d # b) = split_on d a @ split_on d b"
  by (induction a) (auto split: list.splits)

lemma join_sep_snoc:
  "join_sep (es @ [l]) = (if es = [] then l else join_sep es @ CHR ''/'' # l)"
  by (induction es rule: join_sep.induct) auto

lemma join_sep_Cons:
  "join_sep (e # es) = (if es = [] then e else e @ CHR ''/'' # join_sep es)"
  by (cases es) auto

lemma split_join:
  "es \<noteq> [] \<Longrightarrow> \<forall>e\<in>set es. CHR ''/'' \<notin> set e \<Longrightarrow> split_on (CHR ''/'') (join_sep es) = es"
proof (induction es rule: join_sep.induct)
  case 1
  then show ?case by simp
next
  case (2 x)
  then show ?case by (simp add: split_on_no_sep)
next
  case (3 x y ys)
  then show ?case by (simp add: split_on_append_sep)
qed

lemma join_sep_eq_Nil:
  "\<forall>e\<in>set es. e \<noteq> [] \<Longrightarrow> join_sep es = [] \<longleftrightarrow> es = []"
  by (induction es rule: join_sep.induct) auto

subsection \<open>One step of cleaning on a normal stack\<close>

lemma clean_elem_noop [simp]:
  "clean_elem r st [] = st" "clean_elem r st ''.'' = st"
  by (simp_all add: clean_elem_def)

lemma normal_stack_names: "normal_stack r st \<Longrightarrow> e \<in> set st \<Longrightarrow> name_ok e"
  by (induction st) auto

lemma normal_stack_step:
  "normal_stack r st \<Longrightarrow> CHR ''/'' \<notin> set e \<Longrightarrow> normal_stack r (clean_elem r st e)"
  by (cases st) (auto simp: name_ok_def clean_elem_def)

lemma normal_stack_foldl:
  "normal_stack r st \<Longrightarrow> \<forall>e\<in>set es. CHR ''/'' \<notin> set e \<Longrightarrow>
   normal_stack r (foldl (clean_elem r) st es)"
proof (induction es arbitrary: st)
  case Nil
  then show ?case by simp
next
  case (Cons e es)
  from Cons.prems have "normal_stack r (clean_elem r st e)"
    by (intro normal_stack_step) auto
  with Cons show ?case by simp
qed

lemma clean_elem_push:
  assumes "normal_stack r (e # st)"
  shows "clean_elem r st e = e # st"
proof (cases "e = ''..''")
  case False
  moreover from assms have "e \<noteq> []" "e \<noteq> ''.''" by (simp_all add: name_ok_def)
  ultimately show ?thesis by (simp add: clean_elem_def)
next
  case True
  with assms have nr: "\<not> r" and all: "\<forall>x\<in>set st. x = ''..''" by simp_all
  show ?thesis
  proof (cases st)
    case Nil
    with True nr show ?thesis by (simp add: clean_elem_def)
  next
    case (Cons t ts)
    with all have "t = ''..''" by simp
    with True Cons show ?thesis by (simp add: clean_elem_def)
  qed
qed

lemma foldl_push:
  "normal_stack r (xs @ st) \<Longrightarrow> foldl (clean_elem r) st (rev xs) = xs @ st"
proof (induction xs)
  case Nil
  then show ?case by simp
next
  case (Cons x xs)
  then have "normal_stack r (xs @ st)" by simp
  with Cons have "foldl (clean_elem r) st (rev xs) = xs @ st" by simp
  with Cons.prems show ?case by (simp add: clean_elem_push)
qed

lemma foldl_normal:
  "normal_stack r (rev es) \<Longrightarrow> foldl (clean_elem r) [] es = rev es"
  using foldl_push [of r "rev es" "[]"] by simp

subsection \<open>Clean as rendering of a normal stack\<close>

lemma stack_of_normal: "normal_stack r (stack_of r p)"
  unfolding stack_of_def
  by (rule normal_stack_foldl) (auto dest: split_on_sep_free)

lemma normal_stack_nonempty_names: "normal_stack r st \<Longrightarrow> \<forall>e\<in>set st. e \<noteq> []"
  by (auto dest: normal_stack_names simp: name_ok_def)

lemma normal_stack_sep_free: "normal_stack r st \<Longrightarrow> \<forall>e\<in>set st. CHR ''/'' \<notin> set e"
  by (auto dest: normal_stack_names simp: name_ok_def)

lemma IsAbs_Nil [simp]: "\<not> filepath_IsAbs []"
  by (simp add: filepath_IsAbs_def)

lemma IsAbs_Cons [simp]: "filepath_IsAbs (c # cs) = (c = CHR ''/'')"
  by (simp add: filepath_IsAbs_def)

lemma IsAbs_append: "a \<noteq> [] \<Longrightarrow> filepath_IsAbs (a @ b) = filepath_IsAbs a"
  by (cases a) auto

lemma Clean_render:
  "filepath_Clean p =
     render_path (filepath_IsAbs p) (rev (stack_of (filepath_IsAbs p) p))"
proof (cases "p = []")
  case True
  then show ?thesis
    by (simp add: filepath_Clean_def render_path_def stack_of_def)
next
  case False
  let ?r = "filepath_IsAbs p"
  let ?es = "rev (stack_of ?r p)"
  have "\<forall>e\<in>set ?es. e \<noteq> []"
    using normal_stack_nonempty_names [OF stack_of_normal, of ?r p] by simp
  then have "join_sep ?es = [] \<longleftrightarrow> ?es = []" by (rule join_sep_eq_Nil)
  with False show ?thesis
    by (simp add: filepath_Clean_def render_path_def clean_elems_def stack_of_def Let_def)
qed

lemma foldl_split_render:
  assumes "\<forall>e\<in>set es. CHR ''/'' \<notin> set e"
  shows "foldl (clean_elem r) st (split_on (CHR ''/'') (render_path rt es)) =
         foldl (clean_elem r) st es"
proof (cases "es = []")
  case True
  then show ?thesis by (simp add: render_path_def)
next
  case False
  with assms have "split_on (CHR ''/'') (join_sep es) = es" by (simp add: split_join)
  with False show ?thesis by (simp add: render_path_def)
qed

lemma join_sep_hd:
  "es \<noteq> [] \<Longrightarrow> hd es \<noteq> [] \<Longrightarrow> join_sep es \<noteq> [] \<and> hd (join_sep es) = hd (hd es)"
  by (cases es rule: join_sep.cases) auto

lemma IsAbs_render:
  assumes "normal_stack r (rev es)"
  shows "filepath_IsAbs (render_path r es) = r"
proof (cases r)
  case True
  then show ?thesis by (simp add: render_path_def)
next
  case False
  show ?thesis
  proof (cases "es = []")
    case True
    with False show ?thesis by (simp add: render_path_def)
  next
    case ne: False
    then have "hd es \<in> set (rev es)" by simp
    from normal_stack_names [OF assms this] have ok: "name_ok (hd es)" .
    then have h: "hd es \<noteq> []" by (simp add: name_ok_def)
    from join_sep_hd [OF ne h] have j: "join_sep es \<noteq> []" "hd (join_sep es) = hd (hd es)"
      by simp_all
    from ok h have "hd (hd es) \<noteq> CHR ''/''" by (cases "hd es") (auto simp: name_ok_def)
    with j have "\<not> filepath_IsAbs (join_sep es)" by (cases "join_sep es") auto
    with False ne show ?thesis by (simp add: render_path_def)
  qed
qed

lemma stack_of_render:
  assumes "normal_stack r (rev es)"
  shows "stack_of r (render_path rt es) = rev es"
proof -
  have "\<forall>e\<in>set es. CHR ''/'' \<notin> set e"
    using normal_stack_sep_free [OF assms] by simp
  from foldl_split_render [OF this, of r "[]" rt] foldl_normal [OF assms]
  show ?thesis by (simp add: stack_of_def)
qed

lemma Clean_render_normal:
  assumes "normal_stack r (rev es)"
  shows "filepath_Clean (render_path r es) = render_path r es"
  by (simp add: Clean_render IsAbs_render [OF assms] stack_of_render [OF assms])

lemma Clean_normal_form:
  "\<exists>es. normal_stack (filepath_IsAbs p) (rev es) \<and>
         filepath_Clean p = render_path (filepath_IsAbs p) es"
  using Clean_render [of p] stack_of_normal [of "filepath_IsAbs p" p]
  by (intro exI [of _ "rev (stack_of (filepath_IsAbs p) p)"]) simp

lemma IsAbs_Clean [simp]: "filepath_IsAbs (filepath_Clean p) = filepath_IsAbs p"
proof -
  from Clean_normal_form [of p] obtain es where
    "normal_stack (filepath_IsAbs p) (rev es)"
    "filepath_Clean p = render_path (filepath_IsAbs p) es" by blast
  then show ?thesis by (simp add: IsAbs_render)
qed

lemma Clean_idem [simp]: "filepath_Clean (filepath_Clean p) = filepath_Clean p"
proof -
  from Clean_normal_form [of p] obtain es where
    "normal_stack (filepath_IsAbs p) (rev es)"
    "filepath_Clean p = render_path (filepath_IsAbs p) es" by blast
  then show ?thesis by (simp add: Clean_render_normal)
qed

lemma render_path_not_Nil [simp]: "normal_stack r (rev es) \<Longrightarrow> render_path r es \<noteq> []"
  using join_sep_eq_Nil [of es] normal_stack_nonempty_names [of r "rev es"]
  by (auto simp: render_path_def)

lemma Clean_not_Nil [simp]: "filepath_Clean p \<noteq> []"
proof -
  from Clean_normal_form [of p] obtain es where
    "normal_stack (filepath_IsAbs p) (rev es)"
    "filepath_Clean p = render_path (filepath_IsAbs p) es" by blast
  then show ?thesis by simp
qed

lemma clean_path_form:
  assumes "filepath_Clean q = q"
  obtains es where "normal_stack (filepath_IsAbs q) (rev es)"
    and "q = render_path (filepath_IsAbs q) es"
  using Clean_normal_form [of q] assms by auto

lemma render_path_inj:
  assumes "normal_stack r (rev es)" and "normal_stack r (rev es')"
    and "render_path r es = render_path r es'"
  shows "es = es'"
proof -
  have "rev es = stack_of r (render_path r es)" by (simp add: stack_of_render [OF assms(1)])
  also have "\<dots> = stack_of r (render_path r es')" by (simp add: assms(3))
  also have "\<dots> = rev es'" by (simp add: stack_of_render [OF assms(2)])
  finally show ?thesis by simp
qed

subsection \<open>Join, Dir and Base on clean paths\<close>

lemma Join2: "a \<noteq> [] \<Longrightarrow> path_Join [a, b] = filepath_Clean (a @ CHR ''/'' # b)"
  by (cases a) (simp_all add: path_Join_def)

lemma Join3:
  "a \<noteq> [] \<Longrightarrow> path_Join [a, b, c] = filepath_Clean (a @ CHR ''/'' # b @ CHR ''/'' # c)"
  by (cases a) (simp_all add: path_Join_def)

lemma stack_of_append:
  "stack_of r (a @ CHR ''/'' # b) =
     foldl (clean_elem r) (stack_of r a) (split_on (CHR ''/'') b)"
  by (simp add: stack_of_def split_on_append)

lemma Clean_append:
  assumes "a \<noteq> []"
  shows "filepath_Clean (a @ CHR ''/'' # b) =
     render_path (filepath_IsAbs a)
       (rev (foldl (clean_elem (filepath_IsAbs a)) (stack_of (filepath_IsAbs a) a)
               (split_on (CHR ''/'') b)))"
  using assms by (simp add: Clean_render IsAbs_append stack_of_append)

lemma split_dir_append:
  assumes "CHR ''/'' \<notin> set l" and "X = [] \<or> last X = CHR ''/''"
  shows "split_dir (X @ l) = X"
proof -
  have a: "dropWhile (\<lambda>c. c \<noteq> CHR ''/'') (rev l @ rev X) =
           dropWhile (\<lambda>c. c \<noteq> CHR ''/'') (rev X)"
    using assms(1) by (simp add: dropWhile_append)
  have b: "dropWhile (\<lambda>c. c \<noteq> CHR ''/'') (rev X) = rev X"
  proof (cases "X = []")
    case True
    then show ?thesis by simp
  next
    case False
    with assms(2) have "hd (rev X) = CHR ''/''" by (simp add: hd_rev)
    with False show ?thesis by (cases "rev X") auto
  qed
  show ?thesis by (simp add: split_dir_def a b)
qed

lemma Base_append:
  assumes "l \<noteq> []" and "CHR ''/'' \<notin> set l" and "X = [] \<or> last X = CHR ''/''"
  shows "path_Base (X @ l) = l"
proof -
  from assms(1,2) have "last l \<noteq> CHR ''/''" by (metis last_in_set)
  with assms(1) have "hd (rev l @ rev X) \<noteq> CHR ''/''" by (simp add: hd_rev)
  moreover from assms(1) have "rev l @ rev X \<noteq> []" by simp
  ultimately have q: "dropWhile (\<lambda>c. c = CHR ''/'') (rev l @ rev X) = rev l @ rev X"
    by (cases "rev l @ rev X") auto
  have "takeWhile (\<lambda>c. c \<noteq> CHR ''/'') (rev X) = []"
  proof (cases "X = []")
    case True
    then show ?thesis by simp
  next
    case False
    with assms(3) have "hd (rev X) = CHR ''/''" by (simp add: hd_rev)
    with False show ?thesis by (cases "rev X") auto
  qed
  then have t: "takeWhile (\<lambda>c. c \<noteq> CHR ''/'') (rev l @ rev X) = rev l"
    using assms(2) by (simp add: takeWhile_append)
  from assms(1) show ?thesis
    by (simp add: path_Base_def Let_def q t)
qed

lemma dir_prefix_last: "dir_prefix r B = [] \<or> last (dir_prefix r B) = CHR ''/''"
  by (simp add: dir_prefix_def)

lemma render_snoc: "render_path r (B @ [l]) = dir_prefix r B @ l"
  by (simp add: render_path_def dir_prefix_def join_sep_snoc)

lemma normal_stack_tl: "normal_stack r (e # st) \<Longrightarrow> normal_stack r st"
  by simp

lemma Clean_dir_prefix:
  assumes "normal_stack r (rev B)"
  shows "filepath_Clean (dir_prefix r B) = render_path r B"
proof (cases "B = []")
  case True
  then show ?thesis
    by (simp add: dir_prefix_def render_path_def filepath_Clean_def clean_elems_def
                  clean_elem_def)
next
  case False
  have ne: "render_path r B \<noteq> []" using assms by simp
  have "filepath_Clean (render_path r B @ CHR ''/'' # []) = render_path r B"
    using Clean_append [OF ne, of "[]"] IsAbs_render [OF assms] stack_of_render [OF assms]
    by simp
  with False show ?thesis by (simp add: dir_prefix_def)
qed

lemma Dir_render_snoc:
  assumes "normal_stack r (rev (B @ [l]))"
  shows "path_Dir (render_path r (B @ [l])) = render_path r B"
proof -
  from assms have l: "name_ok l" and B: "normal_stack r (rev B)" by simp_all
  from l have "CHR ''/'' \<notin> set l" by (simp add: name_ok_def)
  from split_dir_append [OF this dir_prefix_last]
  show ?thesis by (simp add: path_Dir_def render_snoc Clean_dir_prefix [OF B])
qed

lemma Base_render_snoc:
  assumes "normal_stack r (rev (B @ [l]))"
  shows "path_Base (render_path r (B @ [l])) = l"
proof -
  from assms have l: "name_ok l" by simp
  then have "l \<noteq> []" "CHR ''/'' \<notin> set l" by (simp_all add: name_ok_def)
  from Base_append [OF this dir_prefix_last] show ?thesis by (simp add: render_snoc)
qed

lemma Dir_Base_root:
  "path_Dir ''/'' = ''/''" "path_Base ''/'' = ''/''"
  "path_Dir ''.'' = ''.''" "path_Base ''.'' = ''.''"
  by (simp_all add: path_Dir_def path_Base_def split_dir_def filepath_Clean_def
                    clean_elems_def clean_elem_def)

lemma render_path_Nil: "render_path r [] = (if r then ''/'' else ''.'')"
  by (simp add: render_path_def)

text \<open>What the elements of the directory and the base of a clean path clean to.\<close>

lemma foldl_dir_base:
  assumes "normal_stack rq (rev N)"
  shows "foldl (clean_elem r)
           (foldl (clean_elem r) st (split_on (CHR ''/'') (path_Dir (render_path rq N))))
           (split_on (CHR ''/'') (path_Base (render_path rq N))) =
         foldl (clean_elem r) st N"
proof (cases N rule: rev_cases)
  case Nil
  then show ?thesis by (cases rq) (simp_all add: render_path_Nil Dir_Base_root)
next
  case (snoc B l)
  with assms have n: "normal_stack rq (rev (B @ [l]))" by simp
  then have l: "name_ok l" and B: "normal_stack rq (rev B)" by simp_all
  have Bs: "\<forall>e\<in>set B. CHR ''/'' \<notin> set e" using normal_stack_sep_free [OF B] by simp
  have "split_on (CHR ''/'') l = [l]"
    using l by (simp add: name_ok_def split_on_no_sep)
  then show ?thesis
    unfolding snoc Dir_render_snoc [OF n] Base_render_snoc [OF n]
    by (simp add: foldl_split_render [OF Bs])
qed

lemma rejoin:
  assumes "a \<noteq> []" and "filepath_Clean q = q"
  shows "path_Join [a, path_Dir q, path_Base q] = path_Join [a, q]"
proof -
  from assms(2) obtain N where N: "normal_stack (filepath_IsAbs q) (rev N)"
    and q: "q = render_path (filepath_IsAbs q) N" by (rule clean_path_form)
  let ?r = "filepath_IsAbs a"
  have Ns: "\<forall>e\<in>set N. CHR ''/'' \<notin> set e" using normal_stack_sep_free [OF N] by simp
  have lhs: "path_Join [a, path_Dir q, path_Base q] =
      render_path ?r (rev (foldl (clean_elem ?r) (stack_of ?r a) N))"
    using assms(1) foldl_dir_base [OF N, of ?r "stack_of ?r a"] q
    by (simp add: Join3 Clean_render IsAbs_append stack_of_append split_on_append)
  have rhs: "path_Join [a, q] =
      render_path ?r (rev (foldl (clean_elem ?r) (stack_of ?r a) N))"
    using assms(1) foldl_split_render [OF Ns, of ?r "stack_of ?r a" "filepath_IsAbs q"] q
    by (simp add: Join2 Clean_append)
  show ?thesis by (simp add: lhs rhs)
qed

lemma Dir_clean: "filepath_Clean (path_Dir q) = path_Dir q"
  by (simp add: path_Dir_def)

lemma Dir_not_Nil [simp]: "path_Dir q \<noteq> []"
  by (simp add: path_Dir_def)

lemma rejoin_self:
  assumes "filepath_Clean q = q"
  shows "path_Join [path_Dir q, ''.'', path_Base q] = q"
proof -
  from assms obtain N where N: "normal_stack (filepath_IsAbs q) (rev N)"
    and q: "q = render_path (filepath_IsAbs q) N" by (rule clean_path_form)
  let ?r = "filepath_IsAbs q"
  show ?thesis
  proof (cases N rule: rev_cases)
    case Nil
    with q have "q = ''/'' \<or> q = ''.''" by (simp add: render_path_Nil split: if_splits)
    then show ?thesis
      by (auto simp: Dir_Base_root path_Join_def filepath_Clean_def clean_elems_def
                     clean_elem_def)
  next
    case (snoc B l)
    with N have n: "normal_stack ?r (rev (B @ [l]))" by simp
    then have l: "name_ok l" and B: "normal_stack ?r (rev B)" by simp_all
    have d: "path_Dir q = render_path ?r B" and b: "path_Base q = l"
      using Dir_render_snoc [OF n] Base_render_snoc [OF n] q snoc by simp_all
    have sl: "split_on (CHR ''/'') l = [l]"
      using l by (simp add: name_ok_def split_on_no_sep)
    have push: "clean_elem ?r (rev B) l = l # rev B"
      using n by (intro clean_elem_push) simp
    have ne: "render_path ?r B \<noteq> []" using B by simp
    have "path_Join [path_Dir q, ''.'', path_Base q] = render_path ?r (B @ [l])"
      unfolding d b
      using ne IsAbs_render [OF B] stack_of_render [OF B, of ?r] sl push
      by (simp add: Join3 Clean_render IsAbs_append stack_of_append split_on_append)
    with q snoc show ?thesis by simp
  qed
qed

section \<open>The path resolver: what it returns\<close>

subsection \<open>The search loop\<close>

lemma search_imports_match_nonempty:
  "search_imports stat wd p S = Inr (imp, rel) \<Longrightarrow> (imp = [] \<longleftrightarrow> rel = [])"
proof (induction S)
  case Nil
  then show ?case by simp
next
  case (Cons s S)
  then show ?case
    by (auto simp: Let_def path_Dir_def split: if_splits sum.splits)
qed

lemma search_imports_append:
  "search_imports stat wd p S1 = Inr ([], []) \<Longrightarrow>
   search_imports stat wd p (S1 @ S2) = search_imports stat wd p S2"
proof (induction S1)
  case Nil
  then show ?case by simp
next
  case (Cons s S)
  then show ?case
    by (auto simp: Let_def path_Dir_def split: if_splits sum.splits)
qed

lemma search_imports_relative_none:
  assumes "\<not> filepath_IsAbs p"
  shows "search_imports stat wd p S = Inr ([], []) \<longleftrightarrow>
         (\<forall>s\<in>set S. stat (path_Join [filepath_Clean s, p]) = StatNotExist)"
  using assms by (induction S) (auto simp: Let_def)

lemma search_imports_relative_head:
  assumes "\<not> filepath_IsAbs p" and "stat (path_Join [filepath_Clean s, p]) \<noteq> StatNotExist"
  shows "search_imports stat wd p (s # S2) = Inr (filepath_Clean s, path_Dir p)"
  using assms by (simp add: Let_def)

lemma search_imports_absolute_head:
  assumes "filepath_IsAbs p" and "filepath_Abs wd (filepath_Clean s) = Inr A"
    and "filepath_Rel A p = Inr q" and "q \<noteq> []" and "\<not> prefix ''../'' q"
    and "stat_ok (stat (path_Join [filepath_Clean s, path_Dir q, path_Base p]))"
  shows "search_imports stat wd p (s # S2) = Inr (filepath_Clean s, path_Dir q)"
  using assms by (simp add: Let_def)

subsection \<open>The final check\<close>

lemma check_derived_file:
  "stat (path_Join [imp, rel, path_Base p]) = StatFile \<Longrightarrow>
   check_derived stat p imp rel = Inr (imp, rel)"
  by (simp add: check_derived_def)

lemma check_derived_dir:
  "stat (path_Join [imp, rel, path_Base p]) = StatDir \<Longrightarrow>
   check_derived stat p imp rel =
     Inl (''path '' @ dquote @ path_Join [imp, rel, path_Base p] @ dquote @ '' is a directory'')"
  by (simp add: check_derived_def)

lemma check_derived_error:
  "stat (path_Join [imp, rel, path_Base p]) = StatError e \<Longrightarrow>
   check_derived stat p imp rel =
     Inl (''cannot stat proto file at path '' @ dquote @ path_Join [imp, rel, path_Base p] @
          dquote @ '': stat '' @ path_Join [imp, rel, path_Base p] @ '': '' @ e)"
  by (simp add: check_derived_def stat_err_text_def Let_def)

lemma findProtoInImports_matched:
  assumes "r \<noteq> []"
    and "search_imports stat wd (filepath_Clean r) S = Inr (imp, rel)" and "imp \<noteq> []"
  shows "findProtoInImports stat wd S r = ([], check_derived stat (filepath_Clean r) imp rel)"
  using assms by (simp add: findProtoInImports_def Let_def)

subsection \<open>A relative reference\<close>

lemma resolve_relative:
  assumes "r \<noteq> []" and "\<not> filepath_IsAbs r"
    and "\<forall>s'\<in>set S1. stat (path_Join [filepath_Clean s', filepath_Clean r]) = StatNotExist"
    and "stat (path_Join [filepath_Clean s, filepath_Clean r]) = res" and "res \<noteq> StatNotExist"
  shows "findProtoInImports stat wd (S1 @ s # S2) r =
     ([], check_derived stat (filepath_Clean r) (filepath_Clean s) (path_Dir (filepath_Clean r))) \<and>
     path_Join [filepath_Clean s, path_Dir (filepath_Clean r), path_Base (filepath_Clean r)] =
       path_Join [filepath_Clean s, filepath_Clean r]"
proof -
  let ?p = "filepath_Clean r"
  have rel: "\<not> filepath_IsAbs ?p" using assms(2) by simp
  have "search_imports stat wd ?p S1 = Inr ([], [])"
    using assms(3) by (simp add: search_imports_relative_none [OF rel])
  then have "search_imports stat wd ?p (S1 @ s # S2) = search_imports stat wd ?p (s # S2)"
    by (rule search_imports_append)
  also have "\<dots> = Inr (filepath_Clean s, path_Dir ?p)"
    using assms(4,5) by (intro search_imports_relative_head [OF rel]) simp
  finally have "findProtoInImports stat wd (S1 @ s # S2) r =
      ([], check_derived stat ?p (filepath_Clean s) (path_Dir ?p))"
    using assms(1) by (intro findProtoInImports_matched) simp_all
  moreover have "path_Join [filepath_Clean s, path_Dir ?p, path_Base ?p] =
      path_Join [filepath_Clean s, ?p]"
    by (rule rejoin) simp_all
  ultimately show ?thesis by simp
qed

subsection \<open>The fallback\<close>

lemma resolve_no_match:
  assumes "r \<noteq> []" and "search_imports stat wd (filepath_Clean r) S = Inr ([], [])"
  shows "findProtoInImports stat wd S r =
     (case implicit_import stat wd (filepath_Clean r) of
        (logs, Inl err) \<Rightarrow> (logs, Inl err)
      | (logs, Inr (imp, rel)) \<Rightarrow> (logs, check_derived stat (filepath_Clean r) imp rel))"
  using assms by (simp add: findProtoInImports_def Let_def)

lemma resolve_not_found:
  assumes "r \<noteq> []" and "search_imports stat wd (filepath_Clean r) S = Inr ([], [])"
    and "stat (filepath_Clean r) = StatNotExist"
  shows "findProtoInImports stat wd S r =
     ([NOT_FOUND_LOG], Inl (not_found_message (filepath_Clean r)))"
  using assms(3) by (simp add: resolve_no_match [OF assms(1,2)] implicit_import_def)

lemma resolve_implicit:
  assumes "r \<noteq> []" and "search_imports stat wd (filepath_Clean r) S = Inr ([], [])"
    and "stat (filepath_Clean r) \<noteq> StatNotExist"
  shows "snd (findProtoInImports stat wd S r) =
           check_derived stat (filepath_Clean r) (path_Dir (filepath_Clean r)) ''.'' \<and>
         (LOG_INFO, WARNING_IMPLICIT_IMPORT) \<in> set (fst (findProtoInImports stat wd S r)) \<and>
         path_Join [path_Dir (filepath_Clean r), ''.'', path_Base (filepath_Clean r)] =
           filepath_Clean r"
  using assms(3)
  by (simp add: resolve_no_match [OF assms(1,2)] implicit_import_def rejoin_self)

subsection \<open>Rel on a rooted base and a path below it\<close>

lemma strip_common_Nil: "strip_common [] ys = ([], ys)"
  by (cases ys) simp_all

lemma strip_common_prefix: "strip_common xs (xs @ ys) = ([], ys)"
  by (induction xs) (simp_all add: strip_common_Nil)

lemma normal_stack_rooted_iff:
  "normal_stack True st \<longleftrightarrow> (\<forall>e\<in>set st. name_ok e \<and> e \<noteq> ''..'')"
  by (induction st) auto

lemma normal_stack_no_dotdot:
  "normal_stack r st \<Longrightarrow> ''..'' \<notin> set st \<Longrightarrow> normal_stack True st"
  by (induction st) auto

lemma normal_stack_True_False: "normal_stack True st \<Longrightarrow> normal_stack False st"
  by (induction st) auto

lemma path_elems_rooted:
  assumes "normal_stack True (rev N)"
  shows "path_elems (render_path True N) = [] # N"
proof (cases "N = []")
  case True
  then show ?thesis by (simp add: path_elems_def render_path_def)
next
  case False
  have names: "\<forall>e\<in>set N. e \<noteq> []" "\<forall>e\<in>set N. CHR ''/'' \<notin> set e"
    using normal_stack_nonempty_names [OF assms] normal_stack_sep_free [OF assms] by simp_all
  from names(1) False have "join_sep N \<noteq> []" by (simp add: join_sep_eq_Nil)
  moreover from names(2) False have "split_on (CHR ''/'') (join_sep N) = N"
    by (simp add: split_join)
  ultimately show ?thesis by (simp add: path_elems_def render_path_def)
qed

lemma Rel_below:
  assumes NA: "normal_stack True (rev NA)" and Q: "normal_stack True (rev Q)" and ne: "Q \<noteq> []"
  shows "filepath_Rel (render_path True NA) (render_path True (NA @ Q)) = Inr (join_sep Q)"
proof -
  have NQ: "normal_stack True (rev (NA @ Q))"
    using NA Q by (auto simp: normal_stack_rooted_iff)
  have cb: "filepath_Clean (render_path True NA) = render_path True NA"
    by (rule Clean_render_normal [OF NA])
  have ct: "filepath_Clean (render_path True (NA @ Q)) = render_path True (NA @ Q)"
    by (rule Clean_render_normal [OF NQ])
  have neq: "render_path True (NA @ Q) \<noteq> render_path True NA"
  proof
    assume "render_path True (NA @ Q) = render_path True NA"
    from render_path_inj [OF NQ NA this] ne show False by simp
  qed
  have nd: "render_path True NA \<noteq> ''.''" by (simp add: render_path_def)
  have ab: "filepath_IsAbs (render_path True NA)" "filepath_IsAbs (render_path True (NA @ Q))"
    by (simp_all add: render_path_def)
  have sc: "strip_common (path_elems (render_path True NA))
              (path_elems (render_path True (NA @ Q))) = ([], Q)"
    using strip_common_prefix [of "[] # NA" Q]
    by (simp add: path_elems_rooted [OF NA] path_elems_rooted [OF NQ])
  show ?thesis
    unfolding filepath_Rel_def Let_def cb ct
    using neq nd ab sc by simp
qed

subsection \<open>Paths that descend\<close>

lemma normal_stack_rev_hd:
  assumes "normal_stack False (rev Q)" and "Q \<noteq> []" and "hd Q \<noteq> ''..''"
  shows "''..'' \<notin> set Q"
proof -
  have "normal_stack False st \<Longrightarrow> st \<noteq> [] \<Longrightarrow> last st \<noteq> ''..'' \<Longrightarrow> ''..'' \<notin> set st" for st
  proof (induction st)
    case Nil
    then show ?case by simp
  next
    case (Cons t ts)
    show ?case
    proof (cases "ts = []")
      case True
      with Cons.prems show ?thesis by simp
    next
      case False
      with Cons.prems have l: "last ts \<noteq> ''..''" and n: "normal_stack False ts" by simp_all
      from Cons.IH [OF n False l] have ts: "''..'' \<notin> set ts" .
      have "t \<noteq> ''..''"
      proof
        assume "t = ''..''"
        with Cons.prems(1) have "\<forall>x\<in>set ts. x = ''..''" by simp
        with False have "last ts = ''..''" by simp
        with l show False by simp
      qed
      with ts show ?thesis by simp
    qed
  qed
  from this [of "rev Q"] assms show ?thesis by (simp add: last_rev)
qed

lemma descends_form:
  assumes "descends q"
  obtains Q where "normal_stack True (rev Q)" and "Q \<noteq> []" and "q = join_sep Q"
    and "q = render_path False Q"
proof -
  from assms have c: "filepath_Clean q = q" and r: "\<not> filepath_IsAbs q" and nd: "q \<noteq> ''.''"
    and ndd: "q \<noteq> ''..''" and np: "\<not> prefix ''../'' q" by (simp_all add: descends_def)
  from c obtain Q where Q: "normal_stack (filepath_IsAbs q) (rev Q)"
    and q: "q = render_path (filepath_IsAbs q) Q" by (rule clean_path_form)
  from Q r have Qn: "normal_stack False (rev Q)" by simp
  from q r nd have ne: "Q \<noteq> []" by (auto simp: render_path_def)
  with q r have qj: "q = join_sep Q" by (simp add: render_path_def)
  have "hd Q \<noteq> ''..''"
  proof
    assume h: "hd Q = ''..''"
    with ne obtain Q' where Q': "Q = ''..'' # Q'" by (cases Q) auto
    show False
    proof (cases "Q' = []")
      case True
      with Q' qj ndd show False by simp
    next
      case False
      with Q' qj have "q = ''..'' @ CHR ''/'' # join_sep Q'" by (simp add: join_sep_Cons)
      then have "prefix ''../'' q" by (simp add: prefix_def)
      with np show False by simp
    qed
  qed
  from normal_stack_rev_hd [OF Qn ne this] have "''..'' \<notin> set (rev Q)" by simp
  from normal_stack_no_dotdot [OF Qn this] have "normal_stack True (rev Q)" .
  with ne qj q r that show ?thesis by simp
qed

lemma Abs_clean:
  assumes "filepath_Abs wd imp = Inr A" and "imp \<noteq> []"
  shows "filepath_Clean A = A"
proof (cases "filepath_IsAbs imp")
  case True
  with assms show ?thesis by (auto simp: filepath_Abs_def)
next
  case False
  with assms obtain d where A: "A = path_Join [d, imp]"
    by (auto simp: filepath_Abs_def split: sum.splits)
  from assms(2) have "A = filepath_Clean (join_sep (dropWhile (\<lambda>e. e = []) [d, imp]))"
    unfolding A by (auto simp: path_Join_def split: list.splits)
  then show ?thesis by (metis Clean_idem)
qed

text \<open>Joining a descending path to a rooted clean path, and taking it off again.\<close>

lemma join_below:
  assumes A: "filepath_Clean A = A" and abs: "filepath_IsAbs A" and q: "descends q"
  shows "filepath_Clean (path_Join [A, q]) = path_Join [A, q] \<and>
         filepath_IsAbs (path_Join [A, q]) \<and>
         filepath_Rel A (path_Join [A, q]) = Inr q \<and>
         path_Base (path_Join [A, q]) = path_Base q"
proof -
  from A obtain NA where NA': "normal_stack (filepath_IsAbs A) (rev NA)"
    and Ar': "A = render_path (filepath_IsAbs A) NA" by (rule clean_path_form)
  from NA' Ar' abs have NA: "normal_stack True (rev NA)" and Ar: "A = render_path True NA"
    by simp_all
  from q obtain Q where Q: "normal_stack True (rev Q)" and ne: "Q \<noteq> []"
    and qj: "q = join_sep Q" and qr: "q = render_path False Q" by (rule descends_form)
  have NQ: "normal_stack True (rev (NA @ Q))"
    using NA Q by (auto simp: normal_stack_rooted_iff)
  have Qs: "\<forall>e\<in>set Q. CHR ''/'' \<notin> set e" using normal_stack_sep_free [OF Q] by simp
  have Ane: "A \<noteq> []" using abs by auto
  have push: "foldl (clean_elem True) (rev NA) Q = rev Q @ rev NA"
    using foldl_push [of True "rev Q" "rev NA"] NQ by simp
  have J: "path_Join [A, q] = render_path True (NA @ Q)"
    using Ane abs foldl_split_render [OF Qs, of True "stack_of True A" False]
      stack_of_render [OF NA, of True] push
    by (simp add: Join2 Clean_append qr [symmetric]) (simp add: Ar qr)
  have c: "filepath_Clean (path_Join [A, q]) = path_Join [A, q]"
    unfolding J by (rule Clean_render_normal [OF NQ])
  have a: "filepath_IsAbs (path_Join [A, q])" unfolding J by (simp add: render_path_def)
  have r: "filepath_Rel A (path_Join [A, q]) = Inr q"
    unfolding J using Rel_below [OF NA Q ne] Ar qj by simp
  obtain B l where Bl: "Q = B @ [l]" using ne by (cases Q rule: rev_cases) auto
  have b1: "path_Base (render_path True (NA @ Q)) = l"
    using Base_render_snoc [of True "NA @ B" l] NQ Bl by simp
  have Qf: "normal_stack False (rev Q)"
    by (rule normal_stack_True_False [OF Q])
  have b2: "path_Base (render_path False Q) = l"
    using Base_render_snoc [of False B l] Qf Bl by simp
  have b: "path_Base (path_Join [A, q]) = path_Base q"
    unfolding J using b1 b2 qr by simp
  from c a r b show ?thesis by simp
qed

lemma resolve_absolute:
  assumes abs: "filepath_Abs wd (filepath_Clean s) = Inr A" and rooted: "filepath_IsAbs A"
    and q: "descends q"
    and before: "search_imports stat wd (path_Join [A, q]) S1 = Inr ([], [])"
    and isfile: "stat (path_Join [filepath_Clean s, q]) = StatFile"
  shows "findProtoInImports stat wd (S1 @ s # S2) (path_Join [A, q]) =
           ([], Inr (filepath_Clean s, path_Dir q))"
proof -
  let ?p = "path_Join [A, q]"
  let ?imp = "filepath_Clean s"
  have A: "filepath_Clean A = A" by (rule Abs_clean [OF abs]) simp
  from join_below [OF A rooted q] have pc: "filepath_Clean ?p = ?p"
    and pa: "filepath_IsAbs ?p" and rel: "filepath_Rel A ?p = Inr q"
    and base: "path_Base ?p = path_Base q" by simp_all
  from pa have pne: "?p \<noteq> []" by auto
  from q have qc: "filepath_Clean q = q" and np: "\<not> prefix ''../'' q"
    by (simp_all add: descends_def)
  from qc have qne: "q \<noteq> []" by (metis Clean_not_Nil)
  have derived: "path_Join [?imp, path_Dir q, path_Base ?p] = path_Join [?imp, q]"
    unfolding base by (rule rejoin [OF _ qc]) simp
  have ok: "stat_ok (stat (path_Join [?imp, path_Dir q, path_Base ?p]))"
    unfolding derived using isfile by (simp add: stat_ok_def)
  have "search_imports stat wd ?p (S1 @ s # S2) = search_imports stat wd ?p (s # S2)"
    by (rule search_imports_append [OF before])
  also have "\<dots> = Inr (?imp, path_Dir q)"
    using pa abs rel qne np ok by (rule search_imports_absolute_head)
  finally have found: "search_imports stat wd (filepath_Clean ?p) (S1 @ s # S2) =
      Inr (?imp, path_Dir q)" by (simp add: pc)
  have "findProtoInImports stat wd (S1 @ s # S2) ?p =
      ([], check_derived stat (filepath_Clean ?p) ?imp (path_Dir q))"
    by (rule findProtoInImports_matched [OF pne found]) simp
  moreover have "check_derived stat (filepath_Clean ?p) ?imp (path_Dir q) =
      Inr (?imp, path_Dir q)"
    unfolding pc by (rule check_derived_file) (simp add: derived isfile)
  ultimately show ?thesis by simp
qed




text \<open>
  C4. The absolute reference \<^verbatim>\<open>/a\<close> is the parent of the import path \<^verbatim>\<open>/a/b\<close>:
  \<^verbatim>\<open>filepath.Rel\<close> gives \<^verbatim>\<open>..\<close>, which does not start with \<^verbatim>\<open>../\<close>, so the test that
  is to exclude ascending paths lets it pass. The file \<^verbatim>\<open>/a/b/a\<close> exists, and the
  resolver returns the import path \<^verbatim>\<open>/a/b\<close> as a match for the reference \<^verbatim>\<open>/a\<close>.
\<close>

theorem parent_reference_matches_import:
  "filepath_Rel ''/a/b'' ''/a'' = Inr ''..'' \<and>
   os_Stat w_escape ''/a'' = StatDir \<and>
   findProtoInImports (os_Stat w_escape) (os_Getwd w_escape) [''/a/b''] ''/a'' =
     ([], Inr (''/a/b'', ''.''))"
  by code_simp

lemma sublist_not_found: "sublist p (not_found_message p)"
  unfolding not_found_message_def
  by (metis sublist_appendI append.assoc)

text \<open>
  C5. For a relative reference, the loop ends without a match exactly when
  \<^verbatim>\<open>os.Stat\<close> reports "does not exist" for the cleaned reference under every cleaned
  import path. When the loop ends without a match, \<^verbatim>\<open>os.Stat\<close> of the cleaned reference
  decides, and one of four things happens. It reports "does not exist": the resolver
  fails with the not-found error, whose message holds the cleaned reference. It
  reports a file that is no directory: the resolver logs the warning and returns the
  reference's directory with the relative path \<^verbatim>\<open>.\<close>. It reports a directory: the
  resolver logs the warning and fails with the is-a-directory error. It fails with any
  other error (as for a reference below a regular file): the resolver logs the
  warning and fails with the cannot-stat error, which holds that error.
\<close>

theorem resolve_fallback:
  "(\<not> filepath_IsAbs r \<longrightarrow>
      (search_imports stat wd (filepath_Clean r) S = Inr ([], []) \<longleftrightarrow>
       (\<forall>s\<in>set S. stat (path_Join [filepath_Clean s, filepath_Clean r]) = StatNotExist))) \<and>
   (r \<noteq> [] \<and> search_imports stat wd (filepath_Clean r) S = Inr ([], []) \<longrightarrow>
      (stat (filepath_Clean r) = StatNotExist \<longrightarrow>
         findProtoInImports stat wd S r =
           ([NOT_FOUND_LOG], Inl (not_found_message (filepath_Clean r))) \<and>
         sublist (filepath_Clean r) (not_found_message (filepath_Clean r))) \<and>
      (stat (filepath_Clean r) = StatFile \<longrightarrow>
         snd (findProtoInImports stat wd S r) = Inr (path_Dir (filepath_Clean r), ''.'') \<and>
         (LOG_INFO, WARNING_IMPLICIT_IMPORT) \<in> set (fst (findProtoInImports stat wd S r))) \<and>
      (stat (filepath_Clean r) = StatDir \<longrightarrow>
         snd (findProtoInImports stat wd S r) =
           Inl (''path '' @ dquote @ filepath_Clean r @ dquote @ '' is a directory'') \<and>
         (LOG_INFO, WARNING_IMPLICIT_IMPORT) \<in> set (fst (findProtoInImports stat wd S r))) \<and>
      (stat (filepath_Clean r) = StatError e \<longrightarrow>
         snd (findProtoInImports stat wd S r) =
           Inl (''cannot stat proto file at path '' @ dquote @ filepath_Clean r @ dquote @
                '': stat '' @ filepath_Clean r @ '': '' @ e) \<and>
         (LOG_INFO, WARNING_IMPLICIT_IMPORT) \<in> set (fst (findProtoInImports stat wd S r))))"
proof (intro conjI impI)
  assume "\<not> filepath_IsAbs r"
  then have "\<not> filepath_IsAbs (filepath_Clean r)" by simp
  then show "search_imports stat wd (filepath_Clean r) S = Inr ([], []) \<longleftrightarrow>
       (\<forall>s\<in>set S. stat (path_Join [filepath_Clean s, filepath_Clean r]) = StatNotExist)"
    by (rule search_imports_relative_none)
next
  assume a: "r \<noteq> [] \<and> search_imports stat wd (filepath_Clean r) S = Inr ([], [])"
    and b: "stat (filepath_Clean r) = StatNotExist"
  from a b show "findProtoInImports stat wd S r =
           ([NOT_FOUND_LOG], Inl (not_found_message (filepath_Clean r)))"
    by (simp add: resolve_not_found)
next
  show "sublist (filepath_Clean r) (not_found_message (filepath_Clean r))"
    by (rule sublist_not_found)
next
  assume a: "r \<noteq> [] \<and> search_imports stat wd (filepath_Clean r) S = Inr ([], [])"
    and b: "stat (filepath_Clean r) = StatFile"
  from a have r: "r \<noteq> []" and s: "search_imports stat wd (filepath_Clean r) S = Inr ([], [])"
    by simp_all
  from b have ne: "stat (filepath_Clean r) \<noteq> StatNotExist" by simp
  from resolve_implicit [OF r s ne] b
  show "snd (findProtoInImports stat wd S r) = Inr (path_Dir (filepath_Clean r), ''.'')"
    by (simp add: check_derived_file)
  from resolve_implicit [OF r s ne]
  show "(LOG_INFO, WARNING_IMPLICIT_IMPORT) \<in> set (fst (findProtoInImports stat wd S r))"
    by simp
next
  assume a: "r \<noteq> [] \<and> search_imports stat wd (filepath_Clean r) S = Inr ([], [])"
    and b: "stat (filepath_Clean r) = StatDir"
  from a have r: "r \<noteq> []" and s: "search_imports stat wd (filepath_Clean r) S = Inr ([], [])"
    by simp_all
  from b have ne: "stat (filepath_Clean r) \<noteq> StatNotExist" by simp
  from resolve_implicit [OF r s ne] b
  show "snd (findProtoInImports stat wd S r) =
           Inl (''path '' @ dquote @ filepath_Clean r @ dquote @ '' is a directory'')"
    by (simp add: check_derived_dir)
  from resolve_implicit [OF r s ne]
  show "(LOG_INFO, WARNING_IMPLICIT_IMPORT) \<in> set (fst (findProtoInImports stat wd S r))"
    by simp
next
  assume a: "r \<noteq> [] \<and> search_imports stat wd (filepath_Clean r) S = Inr ([], [])"
    and b: "stat (filepath_Clean r) = StatError e"
  from a have r: "r \<noteq> []" and s: "search_imports stat wd (filepath_Clean r) S = Inr ([], [])"
    by simp_all
  from b have ne: "stat (filepath_Clean r) \<noteq> StatNotExist" by simp
  from resolve_implicit [OF r s ne] b
  show "snd (findProtoInImports stat wd S r) =
           Inl (''cannot stat proto file at path '' @ dquote @ filepath_Clean r @ dquote @
                '': stat '' @ filepath_Clean r @ '': '' @ e)"
    by (simp add: check_derived_error)
  from resolve_implicit [OF r s ne]
  show "(LOG_INFO, WARNING_IMPLICIT_IMPORT) \<in> set (fst (findProtoInImports stat wd S r))"
    by simp
qed

theorem resolve_fallback_witness:
  "findProtoInImports (os_Stat w_tree) (os_Getwd w_tree) [''protos''] ''./nosuch.proto'' =
     ([NOT_FOUND_LOG], Inl (not_found_message ''nosuch.proto'')) \<and>
   snd (findProtoInImports (os_Stat w_tree) (os_Getwd w_tree) [] ''protos/hello.proto'') =
     Inr (''protos'', ''.'') \<and>
   (LOG_INFO, WARNING_IMPLICIT_IMPORT) \<in>
     set (fst (findProtoInImports (os_Stat w_tree) (os_Getwd w_tree) [] ''protos/hello.proto'')) \<and>
   snd (findProtoInImports (os_Stat w_tree) (os_Getwd w_tree) [] ''protos'') =
     Inl (''path '' @ dquote @ ''protos'' @ dquote @ '' is a directory'') \<and>
   os_Stat w_tree ''protos/hello.proto/x.proto'' = StatError ''not a directory'' \<and>
   snd (findProtoInImports (os_Stat w_tree) (os_Getwd w_tree) [''protos'']
          ''protos/hello.proto/x.proto'') =
     Inl (''cannot stat proto file at path '' @ dquote @ ''protos/hello.proto/x.proto'' @ dquote @
          '': stat protos/hello.proto/x.proto: not a directory'')"
proof -
  have h1: "''./nosuch.proto'' \<noteq> [] \<and>
    search_imports (os_Stat w_tree) (os_Getwd w_tree) (filepath_Clean ''./nosuch.proto'')
      [''protos''] = Inr ([], [])"
    and n1: "os_Stat w_tree (filepath_Clean ''./nosuch.proto'') = StatNotExist"
    by code_simp+
  have h2: "''protos/hello.proto'' \<noteq> [] \<and>
    search_imports (os_Stat w_tree) (os_Getwd w_tree) (filepath_Clean ''protos/hello.proto'')
      [] = Inr ([], [])"
    and n2: "os_Stat w_tree (filepath_Clean ''protos/hello.proto'') = StatFile"
    by code_simp+
  have h3: "''protos'' \<noteq> [] \<and>
    search_imports (os_Stat w_tree) (os_Getwd w_tree) (filepath_Clean ''protos'') [] =
      Inr ([], [])"
    and n3: "os_Stat w_tree (filepath_Clean ''protos'') = StatDir"
    by code_simp+
  have h4: "''protos/hello.proto/x.proto'' \<noteq> [] \<and>
    search_imports (os_Stat w_tree) (os_Getwd w_tree)
      (filepath_Clean ''protos/hello.proto/x.proto'') [''protos''] = Inr ([], [])"
    and n4: "os_Stat w_tree (filepath_Clean ''protos/hello.proto/x.proto'') =
      StatError ''not a directory''"
    by code_simp+
  have e: "filepath_Clean ''./nosuch.proto'' = ''nosuch.proto''"
    "path_Dir (filepath_Clean ''protos/hello.proto'') = ''protos''"
    "filepath_Clean ''protos'' = ''protos''"
    "filepath_Clean ''protos/hello.proto/x.proto'' = ''protos/hello.proto/x.proto''"
    by code_simp+
  note t = resolve_fallback [where stat = "os_Stat w_tree" and wd = "os_Getwd w_tree",
      THEN conjunct2, THEN mp]
  from t [OF h1, THEN conjunct1, THEN mp, OF n1, THEN conjunct1]
  have a: "findProtoInImports (os_Stat w_tree) (os_Getwd w_tree) [''protos''] ''./nosuch.proto'' =
     ([NOT_FOUND_LOG], Inl (not_found_message ''nosuch.proto''))"
    by (simp only: e)
  from t [OF h2, THEN conjunct2, THEN conjunct1, THEN mp, OF n2]
  have b: "snd (findProtoInImports (os_Stat w_tree) (os_Getwd w_tree) [] ''protos/hello.proto'') =
     Inr (''protos'', ''.'') \<and>
   (LOG_INFO, WARNING_IMPLICIT_IMPORT) \<in>
     set (fst (findProtoInImports (os_Stat w_tree) (os_Getwd w_tree) [] ''protos/hello.proto''))"
    by (simp only: e)
  from t [OF h3, THEN conjunct2, THEN conjunct2, THEN conjunct1, THEN mp, OF n3, THEN conjunct1]
  have c: "snd (findProtoInImports (os_Stat w_tree) (os_Getwd w_tree) [] ''protos'') =
     Inl (''path '' @ dquote @ ''protos'' @ dquote @ '' is a directory'')"
    by (simp only: e)
  from t [OF h4, THEN conjunct2, THEN conjunct2, THEN conjunct2, THEN mp, OF n4, THEN conjunct1]
  have d: "snd (findProtoInImports (os_Stat w_tree) (os_Getwd w_tree) [''protos'']
          ''protos/hello.proto/x.proto'') =
     Inl (''cannot stat proto file at path '' @ dquote @ ''protos/hello.proto/x.proto'' @ dquote @
          '': stat '' @ ''protos/hello.proto/x.proto'' @ '': '' @ ''not a directory'')"
    by (simp only: e)
  have n4': "os_Stat w_tree ''protos/hello.proto/x.proto'' = StatError ''not a directory''"
    using n4 by (simp only: e)
  from a b c d n4' show ?thesis by simp
qed

text \<open>
  The reference \<^verbatim>\<open>./nosuch.proto\<close> is found nowhere, and the message of the error names
  \<^verbatim>\<open>nosuch.proto\<close>: the reference as given is not part of it. The reference \<^verbatim>\<open>protos\<close>
  exists on disk, as a directory, no import path matches it, and the resolver fails.
\<close>

theorem unclean_reference_not_in_message:
  "snd (findProtoInImports (os_Stat w_tree) (os_Getwd w_tree) [''protos''] ''./nosuch.proto'') =
     Inl (not_found_message ''nosuch.proto'') \<and>
   \<not> sublist ''./nosuch.proto'' (not_found_message ''nosuch.proto'') \<and>
   os_Stat w_tree ''protos'' = StatDir \<and>
   search_imports (os_Stat w_tree) (os_Getwd w_tree) (filepath_Clean ''protos'') [] =
     Inr ([], []) \<and>
   isl (snd (findProtoInImports (os_Stat w_tree) (os_Getwd w_tree) [] ''protos''))"
  by code_simp

section \<open>The rewritten copies in the output directory\<close>

lemmas path_eval =
  filepath_Clean_def clean_elems_def clean_elem_def path_Join_def path_Dir_def split_dir_def
  path_Base_def filepath_Abs_def filepath_Rel_def path_elems_def

lemmas os_eval =
  abs_key_def lookup_dir_def path_ancestors_def errno_text_def os_Stat_def os_Getwd_def
  os_Mkdir_def mkdir_parent_def os_Open_def os_OpenFile_create_trunc_def
  read_handle_def write_handle_def

text \<open>
  A proto file named below its import path gets its copy below the output directory,
  at the same relative path, with the \<^verbatim>\<open>go_package\<close> option made of
  \<^verbatim>\<open>GENERATED_MODULE_NAME\<close> and that path; the directories are made on the way.
\<close>

lemma copy_below_output:
  "fixGoPackages w_out (param_up\<lparr>protoPath := [''bar/bar.proto''], imports_p := [''protos'']\<rparr>) =
     Inr (param_up\<lparr>protoPath := [''gen/bar/bar.proto''], imports_p := [''protos'']\<rparr>,
          w_out\<lparr>fs := (fs w_out)
            (''/w/gen/bar'' \<mapsto> Directory,
             ''/w/gen/bar/bar.proto'' \<mapsto>
               File (''syntax = 3;'' @ [LF] @ go_package_line ''gripmock/generated/bar'' @
                     [LF, LF]))\<rparr>)"
proof -
  define w1 where "w1 = w_out\<lparr>fs := (fs w_out)(''/w/gen/bar'' \<mapsto> Directory)\<rparr>"
  define content where
    "content = ''syntax = 3;'' @ [LF] @ go_package_line ''gripmock/generated/bar'' @ [LF, LF]"
  have r: "snd (findProtoInImports (os_Stat w_out) (os_Getwd w_out) [''protos'']
             ''bar/bar.proto'') = Inr (''protos'', ''bar'')"
    by code_simp
  have j: "path_Join [''protos'', ''bar'', path_Base ''bar/bar.proto''] = ''protos/bar/bar.proto''"
    "path_Join [''gen'', ''bar''] = ''gen/bar''"
    "path_Join [''gen/bar'', path_Base ''bar/bar.proto''] = ''gen/bar/bar.proto''"
    "path_Join [GENERATED_MODULE_NAME, ''bar''] = ''gripmock/generated/bar''"
    by code_simp+
  have m: "os_MkdirAll w_out ''gen/bar'' = Inr w1"
    by (simp add: os_MkdirAll.simps w1_def w_out_def path_eval os_eval)
  have st: "fixGoPackageProtoStream ''syntax = 3;'' ''gripmock/generated/bar'' = Inr content"
    by (simp add: content_def stream_eval)
  have k: "abs_key w1 ''gen/bar/bar.proto'' = ''/w/gen/bar/bar.proto''"
    "abs_key w1 ''protos/bar/bar.proto'' = ''/w/protos/bar/bar.proto''"
    by (simp_all add: w1_def w_out_def path_eval abs_key_def)
  have l: "lookup_dir w1 ''protos/bar/bar.proto'' = None"
    "lookup_dir w1 ''gen/bar/bar.proto'' = None"
    by (simp_all add: w1_def w_out_def path_eval os_eval)
  have f: "fs w1 ''/w/protos/bar/bar.proto'' = Some (File ''syntax = 3;'')"
    "fs w1 ''/w/gen/bar/bar.proto'' = None"
    by (simp_all add: w1_def w_out_def)
  have g: "fixGoPackage w1 ''protos/bar/bar.proto'' ''gripmock/generated/bar''
             ''gen/bar/bar.proto'' =
      Inr (w1\<lparr>fs := (fs w1)(''/w/gen/bar/bar.proto'' \<mapsto> File content)\<rparr>)"
    by (simp add: fixGoPackage_def os_Open_def os_OpenFile_create_trunc_def read_handle_def
                  write_handle_def l k f st)
  have s: "fixGoPackages_step w_out [''protos''] ''gen'' ''bar/bar.proto'' =
      Inr (''gen/bar/bar.proto'',
           w1\<lparr>fs := (fs w1)(''/w/gen/bar/bar.proto'' \<mapsto> File content)\<rparr>)"
    by (simp add: fixGoPackages_step_def Let_def r j m g)
  show ?thesis
    by (simp add: fixGoPackages_def param_up_def s) (simp add: w1_def content_def)
qed

text \<open>
  C8. The proto file \<^verbatim>\<open>protos/hello.proto\<close> is named as \<^verbatim>\<open>../hello.proto\<close>, with the
  import path \<^verbatim>\<open>protos/bar\<close>. The relative branch of the resolver has no test for a
  path that leaves the import directory: it returns the relative subpath \<^verbatim>\<open>..\<close>.
  \<^verbatim>\<open>fixGoPackages\<close> then writes the copy to \<^verbatim>\<open>hello.proto\<close> in the working directory,
  not below the output directory \<^verbatim>\<open>gen\<close>, with the \<^verbatim>\<open>go_package\<close> option \<^verbatim>\<open>gripmock\<close>,
  and hands that path to the protocol compiler. Nothing is written below \<^verbatim>\<open>gen\<close>.
\<close>

theorem copy_written_outside_output:
  "snd (findProtoInImports (os_Stat w_out) (os_Getwd w_out) [''protos/bar''] ''../hello.proto'') =
     Inr (''protos/bar'', ''..'') \<and>
   fixGoPackages w_out param_up =
     Inr (param_up\<lparr>protoPath := [''hello.proto'']\<rparr>,
          w_out\<lparr>fs := (fs w_out)
            (''/w/hello.proto'' \<mapsto>
               File (''syntax = 3;'' @ [LF] @ go_package_line ''gripmock'' @ [LF, LF]))\<rparr>) \<and>
   abs_key w_out ''hello.proto'' = ''/w/hello.proto'' \<and>
   \<not> prefix (abs_key w_out ''gen'') ''/w/hello.proto''"
proof -
  have r: "snd (findProtoInImports (os_Stat w_out) (os_Getwd w_out) [''protos/bar'']
             ''../hello.proto'') = Inr (''protos/bar'', ''..'')"
    by code_simp
  have j: "path_Join [''protos/bar'', ''..'', path_Base ''../hello.proto''] = ''protos/hello.proto''"
    "path_Join [''gen'', ''..''] = ''.''"
    "path_Join [''.'', path_Base ''../hello.proto''] = ''hello.proto''"
    "path_Join [GENERATED_MODULE_NAME, ''..''] = ''gripmock''"
    by code_simp+
  have k: "abs_key w_out ''hello.proto'' = ''/w/hello.proto''"
    "abs_key w_out ''protos/hello.proto'' = ''/w/protos/hello.proto''"
    "abs_key w_out ''gen'' = ''/w/gen''"
    by code_simp+
  have m: "os_MkdirAll w_out ''.'' = Inr w_out"
    by (simp add: os_MkdirAll.simps w_out_def path_eval os_eval)
  have st: "fixGoPackageProtoStream ''syntax = 3;'' ''gripmock'' =
      Inr (''syntax = 3;'' @ [LF] @ go_package_line ''gripmock'' @ [LF, LF])"
    by (simp add: stream_eval)
  have l: "lookup_dir w_out ''protos/hello.proto'' = None" "lookup_dir w_out ''hello.proto'' = None"
    by code_simp+
  have f: "fs w_out ''/w/protos/hello.proto'' = Some (File ''syntax = 3;'')"
    "fs w_out ''/w/hello.proto'' = None"
    by (simp_all add: w_out_def)
  have g: "fixGoPackage w_out ''protos/hello.proto'' ''gripmock'' ''hello.proto'' =
      Inr (w_out\<lparr>fs := (fs w_out)
            (''/w/hello.proto'' \<mapsto>
               File (''syntax = 3;'' @ [LF] @ go_package_line ''gripmock'' @ [LF, LF]))\<rparr>)"
    by (simp add: fixGoPackage_def os_Open_def os_OpenFile_create_trunc_def read_handle_def
                  write_handle_def l k f st)
  have s: "fixGoPackages_step w_out [''protos/bar''] ''gen'' ''../hello.proto'' =
      Inr (''hello.proto'', w_out\<lparr>fs := (fs w_out)
            (''/w/hello.proto'' \<mapsto>
               File (''syntax = 3;'' @ [LF] @ go_package_line ''gripmock'' @ [LF, LF]))\<rparr>)"
    by (simp add: fixGoPackages_step_def Let_def r j m g)
  have "fixGoPackages w_out param_up =
     Inr (param_up\<lparr>protoPath := [''hello.proto'']\<rparr>,
          w_out\<lparr>fs := (fs w_out)
            (''/w/hello.proto'' \<mapsto>
               File (''syntax = 3;'' @ [LF] @ go_package_line ''gripmock'' @ [LF, LF]))\<rparr>)"
    by (simp add: fixGoPackages_def param_up_def s)
  with r k show ?thesis by simp
qed

end
